theory Spec2Isabelle
  imports Complex_Main "HOL-Library.Word"
begin

section \<open>BitGrid\<close>

text \<open>
  Modelled from the spec: class BitGrid is declared in mask.h, which is not among the
  sources; mask.cc only uses its members \<open>w\<close>, \<open>h\<close>, \<open>get\<close>, \<open>set\<close>, \<open>zero\<close> and
  its constructor. The spec describes a dense boolean grid of fixed width and height,
  addressed by \<open>(x, y)\<close> with \<open>0 \<le> x < w\<close> and \<open>0 \<le> y < h\<close>. The model keeps one
  boolean per pixel in row-major order (pixel \<open>(x, y)\<close> at position \<open>w * y + x\<close>); the
  packing of eight pixels into a byte is not modelled.
\<close>

record BitGrid =
  w :: nat
  h :: nat
  grid :: "bool list"

definition in_range :: "BitGrid \<Rightarrow> int \<Rightarrow> int \<Rightarrow> bool" where
  "in_range g x y = (0 \<le> x \<and> 0 \<le> y \<and> x < int (w g) \<and> y < int (h g))"

definition pos :: "BitGrid \<Rightarrow> int \<Rightarrow> int \<Rightarrow> nat" where
  "pos g x y = w g * nat y + nat x"

text \<open>
  Modelled from the spec: \<open>construct(w, h)\<close> allocates a zeroed grid, and \<open>zero()\<close>
  clears all bits.
\<close>

definition new_BitGrid :: "nat \<Rightarrow> nat \<Rightarrow> BitGrid" where
  "new_BitGrid wd ht = \<lparr> w = wd, h = ht, grid = replicate (wd * ht) False \<rparr>"

definition zero :: "BitGrid \<Rightarrow> BitGrid" where
  "zero g = g \<lparr> grid := replicate (length (grid g)) False \<rparr>"

text \<open>
  Modelled from the spec: \<open>get(x, y)\<close> and \<open>set(x, y, b)\<close>. The spec makes the range of
  the coordinates a precondition of the caller and, for erode(), counts every neighbour
  outside the grid as unset. erode() itself reads \<open>get(i, y+1)\<close> with \<open>y + 1 = h\<close> on
  the last row, so the model gives a read outside the grid the value unset. No call of
  \<open>set\<close> in mask.cc is outside the grid; the model leaves the grid as it is there.
\<close>

definition get :: "BitGrid \<Rightarrow> int \<Rightarrow> int \<Rightarrow> bool" where
  "get g x y = (if in_range g x y then grid g ! pos g x y else False)"

definition set_px :: "BitGrid \<Rightarrow> int \<Rightarrow> int \<Rightarrow> bool \<Rightarrow> BitGrid" where
  "set_px g x y v =
     (if in_range g x y then g \<lparr> grid := (grid g)[pos g x y := v] \<rparr> else g)"

definition wf_BitGrid :: "BitGrid \<Rightarrow> bool" where
  "wf_BitGrid g = (length (grid g) = w g * h g)"

subsection \<open>BitGrid::erode (mask.cc, lines 258 to 297)\<close>

text \<open>
  The three row buffers are lists of \<open>w\<close> booleans. \<open>new bool[w]\<close> leaves their contents
  unspecified; the first loop overwrites all of rowm and rowl, and the first rotation
  hands rowu to the fill loop, which overwrites all of it before any entry is read. The
  model starts the three buffers at False.
\<close>

definition new_row :: "BitGrid \<Rightarrow> bool list" where
  "new_row g = replicate (w g) False"

text \<open>The loop \<open>for(int i=0; i<w; i++) rowl[i] = get(i, y)\<close>.\<close>

definition fill_row :: "BitGrid \<Rightarrow> nat \<Rightarrow> bool list \<Rightarrow> bool list" where
  "fill_row g y row = fold (\<lambda>i r. r[i := get g (int i) (int y)]) [0..<w g] row"

text \<open>The loop \<open>for(int i=0; i<w; i++) { rowm[i] = 0; rowl[i] = get(i, 0); }\<close>.\<close>

definition init_rows :: "BitGrid \<Rightarrow> bool list \<times> bool list" where
  "init_rows g =
     fold (\<lambda>i (rm, rl). (rm[i := False], rl[i := get g (int i) 0])) [0..<w g]
       (new_row g, new_row g)"

text \<open>
  The window of the inner loop: the six variables ul, um, ml, mm, ll, lm that are carried
  from one pixel to the next.
\<close>

record window =
  ul :: bool
  um :: bool
  ml :: bool
  mm :: bool
  ll :: bool
  lm :: bool

text \<open>The test of lines 284 to 287: two consecutive filled neighbours.\<close>

definition two_consecutive :: "window \<Rightarrow> bool \<Rightarrow> bool \<Rightarrow> bool \<Rightarrow> bool" where
  "two_consecutive wn ur mr lr =
     ((ul wn \<and> um wn) \<or> (um wn \<and> ur) \<or> (ur \<and> mr) \<or> (mr \<and> lr) \<or>
      (lr \<and> lm wn) \<or> (lm wn \<and> ll wn) \<or> (ll wn \<and> ml wn) \<or> (ml wn \<and> ul wn))"

text \<open>One pass of the body of \<open>for(int x=0; x<w; x++)\<close>, lines 279 to 290.\<close>

definition erode_px ::
  "bool list \<Rightarrow> bool list \<Rightarrow> bool list \<Rightarrow> nat \<Rightarrow> nat \<Rightarrow> window \<times> BitGrid \<Rightarrow> window \<times> BitGrid"
where
  "erode_px rowu rowm rowl y x st =
     (let wn = fst st; g = snd st;
          ur = (if x + 1 < w g then rowu ! (x + 1) else False);
          mr = (if x + 1 < w g then rowm ! (x + 1) else False);
          lr = (if x + 1 < w g then rowl ! (x + 1) else False);
          g' = (if \<not> two_consecutive wn ur mr lr then set_px g (int x) (int y) False else g)
      in (\<lparr> ul = um wn, um = ur, ml = mm wn, mm = mr, ll = lm wn, lm = lr \<rparr>, g'))"

text \<open>
  One pass of the body of \<open>for(int y=0; y<h; y++)\<close>, lines 268 to 291: the buffers
  rotate, the lower row is read from the grid, and the row is swept from left to right.
  On a grid of width 0 the source reads \<open>rowu[0]\<close>, \<open>rowm[0]\<close> and \<open>rowl[0]\<close>
  outside the buffers and never uses the values; \<open>! 0\<close> has no specified value there.
\<close>

definition erode_row ::
  "nat \<Rightarrow> bool list \<times> bool list \<times> bool list \<times> BitGrid \<Rightarrow>
     bool list \<times> bool list \<times> bool list \<times> BitGrid"
where
  "erode_row y st =
     (case st of (rowu0, rowm0, rowl0, g) \<Rightarrow>
        let tmp = rowu0; rowu = rowm0; rowm = rowl0;
            rowl = fill_row g (y + 1) tmp;
            wn = \<lparr> ul = False, um = rowu ! 0, ml = False, mm = rowm ! 0,
                   ll = False, lm = rowl ! 0 \<rparr>;
            g' = snd (fold (erode_px rowu rowm rowl y) [0..<w g] (wn, g))
        in (rowu, rowm, rowl, g'))"

definition erode :: "BitGrid \<Rightarrow> BitGrid" where
  "erode g =
     (let rowu = new_row g;
          (rowm, rowl) = init_rows g
      in snd (snd (snd (fold erode_row [0..<h g] (rowu, rowm, rowl, g)))))"

subsection \<open>What erode() computes, pixel by pixel\<close>

text \<open>
  The eight neighbours of a pixel, read from a grid with \<open>get\<close>; a neighbour outside
  the grid is unset. \<open>u\<close> is the pixel above (the row \<open>y - 1\<close>), \<open>d\<close> the pixel below.
\<close>

definition nb_ul :: "BitGrid \<Rightarrow> int \<Rightarrow> int \<Rightarrow> bool" where
  "nb_ul g x y = get g (x - 1) (y - 1)"

definition nb_u :: "BitGrid \<Rightarrow> int \<Rightarrow> int \<Rightarrow> bool" where
  "nb_u g x y = get g x (y - 1)"

definition nb_ur :: "BitGrid \<Rightarrow> int \<Rightarrow> int \<Rightarrow> bool" where
  "nb_ur g x y = get g (x + 1) (y - 1)"

definition nb_l :: "BitGrid \<Rightarrow> int \<Rightarrow> int \<Rightarrow> bool" where
  "nb_l g x y = get g (x - 1) y"

definition nb_r :: "BitGrid \<Rightarrow> int \<Rightarrow> int \<Rightarrow> bool" where
  "nb_r g x y = get g (x + 1) y"

definition nb_ll :: "BitGrid \<Rightarrow> int \<Rightarrow> int \<Rightarrow> bool" where
  "nb_ll g x y = get g (x - 1) (y + 1)"

definition nb_d :: "BitGrid \<Rightarrow> int \<Rightarrow> int \<Rightarrow> bool" where
  "nb_d g x y = get g x (y + 1)"

definition nb_lr :: "BitGrid \<Rightarrow> int \<Rightarrow> int \<Rightarrow> bool" where
  "nb_lr g x y = get g (x + 1) (y + 1)"

text \<open>
  The test of lines 284 to 287 on the neighbours of the grid: the variables of the source
  are ul, um = u, ur, mr = r, lr, lm = d, ll, ml = l, and the eight pairs it tests go once
  around the ring of neighbours.
\<close>

definition ring_pairs :: "BitGrid \<Rightarrow> int \<Rightarrow> int \<Rightarrow> bool" where
  "ring_pairs g x y =
     ((nb_ul g x y \<and> nb_u g x y) \<or> (nb_u g x y \<and> nb_ur g x y) \<or>
      (nb_ur g x y \<and> nb_r g x y) \<or> (nb_r g x y \<and> nb_lr g x y) \<or>
      (nb_lr g x y \<and> nb_d g x y) \<or> (nb_d g x y \<and> nb_ll g x y) \<or>
      (nb_ll g x y \<and> nb_l g x y) \<or> (nb_l g x y \<and> nb_ul g x y))"

text \<open>
  The pairs as the specification lists them:
  (ul,u), (u,ur), (ur,r), (r,lr), (lr,l), (l,ll), (ll,d), (d,ul).
\<close>

definition spec_pairs :: "BitGrid \<Rightarrow> int \<Rightarrow> int \<Rightarrow> bool" where
  "spec_pairs g x y =
     ((nb_ul g x y \<and> nb_u g x y) \<or> (nb_u g x y \<and> nb_ur g x y) \<or>
      (nb_ur g x y \<and> nb_r g x y) \<or> (nb_r g x y \<and> nb_lr g x y) \<or>
      (nb_lr g x y \<and> nb_l g x y) \<or> (nb_l g x y \<and> nb_ll g x y) \<or>
      (nb_ll g x y \<and> nb_d g x y) \<or> (nb_d g x y \<and> nb_ul g x y))"

text \<open>Auxiliary notions for the loop invariants of erode().\<close>

text \<open>An entry of a row buffer, unset outside the buffer.\<close>

definition nbr :: "bool list \<Rightarrow> int \<Rightarrow> bool" where
  "nbr row i = (0 \<le> i \<and> i < int (length row) \<and> row ! nat i)"

text \<open>The test of lines 284 to 287 at column \<open>x\<close>, read from the three row buffers.\<close>

definition keep :: "bool list \<Rightarrow> bool list \<Rightarrow> bool list \<Rightarrow> int \<Rightarrow> bool" where
  "keep ru rm rl x =
     ((nbr ru (x - 1) \<and> nbr ru x) \<or> (nbr ru x \<and> nbr ru (x + 1)) \<or>
      (nbr ru (x + 1) \<and> nbr rm (x + 1)) \<or> (nbr rm (x + 1) \<and> nbr rl (x + 1)) \<or>
      (nbr rl (x + 1) \<and> nbr rl x) \<or> (nbr rl x \<and> nbr rl (x - 1)) \<or>
      (nbr rl (x - 1) \<and> nbr rm (x - 1)) \<or> (nbr rm (x - 1) \<and> nbr ru (x - 1)))"

text \<open>The window the inner loop holds when it reaches column \<open>n\<close>.\<close>

definition win :: "bool list \<Rightarrow> bool list \<Rightarrow> bool list \<Rightarrow> nat \<Rightarrow> window" where
  "win ru rm rl n =
     \<lparr> ul = nbr ru (int n - 1), um = nbr ru (int n), ml = nbr rm (int n - 1),
       mm = nbr rm (int n), ll = nbr rl (int n - 1), lm = nbr rl (int n) \<rparr>"

text \<open>
  The inner loop's invariant: \<open>g'\<close> is \<open>g\<close> with the columns below \<open>n\<close> of row \<open>y\<close>
  decided.
\<close>

definition swept :: "BitGrid \<Rightarrow> bool list \<Rightarrow> bool list \<Rightarrow> bool list \<Rightarrow> nat \<Rightarrow> nat \<Rightarrow> BitGrid \<Rightarrow> bool" where
  "swept g ru rm rl y n g' =
     (w g' = w g \<and> h g' = h g \<and> wf_BitGrid g' \<and>
      (\<forall>x' y'. get g' x' y' =
         (if y' = int y \<and> 0 \<le> x' \<and> x' < int n then get g x' y' \<and> keep ru rm rl x'
          else get g x' y')))"

text \<open>Row \<open>y\<close> of a grid as a row buffer holds it.\<close>

definition row_of :: "BitGrid \<Rightarrow> int \<Rightarrow> bool list" where
  "row_of g y = map (\<lambda>i. get g (int i) y) [0..<w g]"

text \<open>
  The outer loop's invariant: \<open>g'\<close> is \<open>g\<close> with the rows below \<open>k\<close> decided, and the
  rows from \<open>k\<close> on untouched.
\<close>

definition eroded_upto :: "BitGrid \<Rightarrow> nat \<Rightarrow> BitGrid \<Rightarrow> bool" where
  "eroded_upto g k g' =
     (w g' = w g \<and> h g' = h g \<and> wf_BitGrid g' \<and>
      (\<forall>x y. get g' x y =
         (if 0 \<le> y \<and> y < int k then get g x y \<and> ring_pairs g x y else get g x y)))"

section \<open>Properties of BitGrid\<close>

lemma set_px_w [simp]: "w (set_px g x y v) = w g"
  by (simp add: set_px_def)

lemma set_px_h [simp]: "h (set_px g x y v) = h g"
  by (simp add: set_px_def)

lemma set_px_wf [simp]: "wf_BitGrid (set_px g x y v) = wf_BitGrid g"
  by (simp add: set_px_def wf_BitGrid_def)

lemma set_px_in_range [simp]: "in_range (set_px g x y v) x' y' = in_range g x' y'"
  by (simp add: in_range_def)

lemma pos_less:
  assumes "in_range g x y"
  shows "pos g x y < w g * h g"
proof -
  from assms have x: "nat x < w g" and y: "nat y < h g"
    by (auto simp: in_range_def)
  have "w g * nat y + nat x < w g * nat y + w g" using x by simp
  also have "\<dots> = w g * Suc (nat y)" by simp
  also have "\<dots> \<le> w g * h g" using y by (intro mult_le_mono2) simp
  finally show ?thesis by (simp add: pos_def)
qed

lemma pos_inj:
  assumes "in_range g x y" and "in_range g x' y'" and "pos g x y = pos g x' y'"
  shows "x = x' \<and> y = y'"
proof -
  from assms(1,2) have x: "nat x < w g" and x': "nat x' < w g"
    and nn: "0 \<le> x" "0 \<le> y" "0 \<le> x'" "0 \<le> y'"
    by (auto simp: in_range_def)
  from assms(3) have e: "w g * nat y + nat x = w g * nat y' + nat x'"
    by (simp add: pos_def)
  have "(w g * nat y + nat x) div w g = nat y" using x by simp
  moreover have "(w g * nat y' + nat x') div w g = nat y'" using x' by simp
  ultimately have y: "nat y = nat y'" using e by simp
  with e have "nat x = nat x'" by simp
  with y nn show ?thesis by arith
qed

lemma get_set_px:
  assumes "wf_BitGrid g" and "in_range g x y"
  shows "get (set_px g x y v) x' y' = (if x' = x \<and> y' = y then v else get g x' y')"
proof (cases "in_range g x' y'")
  case False
  with assms(2) show ?thesis by (auto simp: get_def)
next
  case True
  have len: "pos g x y < length (grid g)"
    using pos_less [OF assms(2)] assms(1) by (simp add: wf_BitGrid_def)
  have p: "pos (set_px g x y v) a b = pos g a b" for a b
    by (simp add: pos_def)
  have gr: "grid (set_px g x y v) = (grid g)[pos g x y := v]"
    using assms(2) by (simp add: set_px_def)
  show ?thesis
  proof (cases "x' = x \<and> y' = y")
    case True
    with assms(2) len show ?thesis
      by (simp add: get_def p gr)
  next
    case False
    with pos_inj [OF assms(2) True] have "pos g x y \<noteq> pos g x' y'" by auto
    with True False assms(2) show ?thesis
      by (auto simp add: get_def p gr)
  qed
qed

lemma fold_update_upt:
  "n \<le> length row \<Longrightarrow>
     fold (\<lambda>i r. r[i := f i]) [0..<n] row = map f [0..<n] @ drop n row"
proof (induction n)
  case 0
  then show ?case by simp
next
  case (Suc n)
  then have "n < length row" by simp
  then have "(map f [0..<n] @ drop n row)[n := f n] = map f [0..<n] @ f n # drop (Suc n) row"
    by (simp add: list_update_append upd_conv_take_nth_drop)
  with Suc show ?case by simp
qed

lemma fill_row_eq:
  "length row = w g \<Longrightarrow> fill_row g y row = map (\<lambda>i. get g (int i) (int y)) [0..<w g]"
  by (simp add: fill_row_def fold_update_upt)

lemma fold_update2_upt:
  "n \<le> length ra \<Longrightarrow> n \<le> length rb \<Longrightarrow>
     fold (\<lambda>i (ra, rb). (ra[i := f i], rb[i := k i])) [0..<n] (ra, rb) =
       (map f [0..<n] @ drop n ra, map k [0..<n] @ drop n rb)"
proof (induction n)
  case 0
  then show ?case by simp
next
  case (Suc n)
  then have "n < length ra" "n < length rb" by simp_all
  then have "(map f [0..<n] @ drop n ra)[n := f n] = map f [0..<n] @ f n # drop (Suc n) ra"
    "(map k [0..<n] @ drop n rb)[n := k n] = map k [0..<n] @ k n # drop (Suc n) rb"
    by (simp_all add: list_update_append upd_conv_take_nth_drop)
  with Suc show ?case by simp
qed

lemma init_rows_eq:
  "init_rows g = (replicate (w g) False, map (\<lambda>i. get g (int i) 0) [0..<w g])"
  by (simp add: init_rows_def new_row_def fold_update2_upt map_replicate_const)

lemma erode_px_step:
  assumes len: "length ru = w g" "length rm = w g" "length rl = w g"
    and y: "y < h g" and n: "n < w g"
    and sw: "swept g ru rm rl y n gn"
  shows "fst (erode_px ru rm rl y n (win ru rm rl n, gn)) = win ru rm rl (Suc n)"
    and "swept g ru rm rl y (Suc n) (snd (erode_px ru rm rl y n (win ru rm rl n, gn)))"
proof -
  from sw have wg: "w gn = w g" and hg: "h gn = h g" and wf: "wf_BitGrid gn"
    and gt: "\<And>x' y'. get gn x' y' =
         (if y' = int y \<and> 0 \<le> x' \<and> x' < int n then get g x' y' \<and> keep ru rm rl x'
          else get g x' y')"
    by (simp_all add: swept_def)
  have r: "(if Suc n < w gn then ru ! Suc n else False) = nbr ru (1 + int n)"
    "(if Suc n < w gn then rm ! Suc n else False) = nbr rm (1 + int n)"
    "(if Suc n < w gn then rl ! Suc n else False) = nbr rl (1 + int n)"
    using len wg by (auto simp: nbr_def nat_add_distrib)
  have tc: "two_consecutive (win ru rm rl n) (nbr ru (1 + int n)) (nbr rm (1 + int n))
      (nbr rl (1 + int n)) = keep ru rm rl (int n)"
    by (simp add: two_consecutive_def win_def keep_def add.commute)
  have e: "erode_px ru rm rl y n (win ru rm rl n, gn) =
      (\<lparr> ul = um (win ru rm rl n), um = nbr ru (1 + int n),
         ml = mm (win ru rm rl n), mm = nbr rm (1 + int n),
         ll = lm (win ru rm rl n), lm = nbr rl (1 + int n) \<rparr>,
       if \<not> keep ru rm rl (int n) then set_px gn (int n) (int y) False else gn)"
    unfolding erode_px_def Let_def fst_conv snd_conv
    by (simp only: r tc Suc_eq_plus1 [symmetric])
  show "fst (erode_px ru rm rl y n (win ru rm rl n, gn)) = win ru rm rl (Suc n)"
    unfolding e by (simp add: win_def)
  have g': "snd (erode_px ru rm rl y n (win ru rm rl n, gn)) =
      (if \<not> keep ru rm rl (int n) then set_px gn (int n) (int y) False else gn)"
    unfolding e by simp
  have inr: "in_range gn (int n) (int y)"
    using n y wg hg by (simp add: in_range_def)
  let ?g' = "if \<not> keep ru rm rl (int n) then set_px gn (int n) (int y) False else gn"
  have "get ?g' x' y' =
      (if y' = int y \<and> 0 \<le> x' \<and> x' < int (Suc n) then get g x' y' \<and> keep ru rm rl x'
       else get g x' y')" for x' y'
  proof (cases "x' = int n \<and> y' = int y")
    case True
    then show ?thesis by (simp add: get_set_px [OF wf inr] gt)
  next
    case False
    then have "(y' = int y \<and> 0 \<le> x' \<and> x' < int (Suc n)) = (y' = int y \<and> 0 \<le> x' \<and> x' < int n)"
      by auto
    with False show ?thesis by (auto simp add: get_set_px [OF wf inr] gt)
  qed
  then show "swept g ru rm rl y (Suc n) (snd (erode_px ru rm rl y n (win ru rm rl n, gn)))"
    unfolding g' swept_def
    using wg hg wf by simp
qed

lemma erode_px_fold:
  assumes len: "length ru = w g" "length rm = w g" "length rl = w g"
    and y: "y < h g" and wf: "wf_BitGrid g"
  shows "n \<le> w g \<Longrightarrow>
     fst (fold (erode_px ru rm rl y) [0..<n] (win ru rm rl 0, g)) = win ru rm rl n \<and>
     swept g ru rm rl y n (snd (fold (erode_px ru rm rl y) [0..<n] (win ru rm rl 0, g)))"
proof (induction n)
  case 0
  show ?case using wf by (auto simp add: swept_def)
next
  case (Suc n)
  define st where "st = fold (erode_px ru rm rl y) [0..<n] (win ru rm rl 0, g)"
  from Suc have n: "n < w g" by simp
  from Suc have f: "fst st = win ru rm rl n" and sw: "swept g ru rm rl y n (snd st)"
    by (simp_all add: st_def)
  have st: "st = (win ru rm rl n, snd st)"
    using f by (cases st) simp
  have "fold (erode_px ru rm rl y) [0..<Suc n] (win ru rm rl 0, g) =
      erode_px ru rm rl y n (win ru rm rl n, snd st)"
    using st by (simp add: st_def)
  then show ?case
    using erode_px_step [OF len y n sw] by simp
qed

lemma length_row_of [simp]: "length (row_of g y) = w g"
  by (simp add: row_of_def)

lemma nbr_row_of [simp]: "nbr (row_of g y) j = get g j y"
proof (cases "0 \<le> j \<and> j < int (w g)")
  case True
  then have "nat j < w g" by arith
  with True show ?thesis by (simp add: nbr_def row_of_def)
next
  case False
  then have "\<not> in_range g j y" by (auto simp: in_range_def)
  with False show ?thesis by (auto simp: nbr_def row_of_def get_def)
qed

lemma keep_row_of:
  "keep (row_of g (y - 1)) (row_of g y) (row_of g (y + 1)) x = ring_pairs g x y"
  by (simp add: keep_def ring_pairs_def nb_ul_def nb_u_def nb_ur_def nb_l_def nb_r_def
      nb_ll_def nb_d_def nb_lr_def)

lemma get_no_width: "w g = 0 \<Longrightarrow> get g x y = False"
  by (auto simp add: get_def in_range_def)

lemma get_outside: "\<not> in_range g x y \<Longrightarrow> get g x y = False"
  by (simp add: get_def)

lemma erode_row_step:
  assumes k: "k < h g" and inv: "eroded_upto g k gk" and len: "length ru = w g"
  shows "\<exists>g'. erode_row k (ru, row_of g (int k - 1), row_of g (int k), gk) =
           (row_of g (int k - 1), row_of g (int k), row_of g (int k + 1), g') \<and>
         eroded_upto g (Suc k) g'"
proof -
  from inv have wg: "w gk = w g" and hg: "h gk = h g" and wf: "wf_BitGrid gk"
    and gt: "\<And>x y. get gk x y =
         (if 0 \<le> y \<and> y < int k then get g x y \<and> ring_pairs g x y else get g x y)"
    by (simp_all add: eroded_upto_def)
  let ?ru = "row_of g (int k - 1)" and ?rm = "row_of g (int k)" and ?rl = "row_of g (int k + 1)"
  have fill: "fill_row gk (Suc k) ru = ?rl"
    using len wg by (simp add: fill_row_eq row_of_def gt add.commute)
  define g' where "g' = snd (fold (erode_px ?ru ?rm ?rl k) [0..<w gk]
      (\<lparr> ul = False, um = ?ru ! 0, ml = False, mm = ?rm ! 0, ll = False, lm = ?rl ! 0 \<rparr>, gk))"
  have e: "erode_row k (ru, ?ru, ?rm, gk) = (?ru, ?rm, ?rl, g')"
    by (simp add: erode_row_def Let_def fill g'_def)
  have "eroded_upto g (Suc k) g'"
  proof (cases "w g = 0")
    case True
    then have "g' = gk" using wg by (simp add: g'_def)
    moreover have "get gk x y = False" "get g x y = False" for x y
      using True wg by (simp_all add: get_no_width)
    ultimately show ?thesis
      using wg hg wf by (simp add: eroded_upto_def)
  next
    case False
    then have pos: "0 < w g" by simp
    have w0: "\<lparr> ul = False, um = ?ru ! 0, ml = False, mm = ?rm ! 0, ll = False, lm = ?rl ! 0 \<rparr> =
        win ?ru ?rm ?rl 0"
      using pos by (simp add: win_def nbr_def)
    have "swept gk ?ru ?rm ?rl k (w gk) g'"
      unfolding g'_def w0
      using erode_px_fold [of ?ru gk ?rm ?rl k "w gk"] k wf wg hg by simp
    then have w': "w g' = w g" and h': "h g' = h g" and wf': "wf_BitGrid g'"
      and gt': "\<And>x' y'. get g' x' y' =
         (if y' = int k \<and> 0 \<le> x' \<and> x' < int (w g)
          then get gk x' y' \<and> keep ?ru ?rm ?rl x' else get gk x' y')"
      using wg hg by (simp_all add: swept_def)
    have "get g' x y =
        (if 0 \<le> y \<and> y < int (Suc k) then get g x y \<and> ring_pairs g x y else get g x y)" for x y
    proof (cases "y = int k")
      case True
      show ?thesis
      proof (cases "0 \<le> x \<and> x < int (w g)")
        case True
        with \<open>y = int k\<close> show ?thesis
          by (simp add: gt' gt keep_row_of)
      next
        case False
        then have "\<not> in_range g x y" by (auto simp: in_range_def)
        then have "get g x y = False" by (rule get_outside)
        with False \<open>y = int k\<close> show ?thesis
          by (simp add: gt' gt)
      qed
    next
      case False
      then have "(0 \<le> y \<and> y < int (Suc k)) = (0 \<le> y \<and> y < int k)" by auto
      with False show ?thesis by (simp add: gt' gt)
    qed
    with w' h' wf' show ?thesis by (simp add: eroded_upto_def)
  qed
  with e show ?thesis by blast
qed

lemma erode_rows_fold:
  assumes wf: "wf_BitGrid g" and len: "length ru = w g"
  shows "k \<le> h g \<Longrightarrow>
     \<exists>ru' g'. fold erode_row [0..<k] (ru, row_of g (- 1), row_of g 0, g) =
         (ru', row_of g (int k - 1), row_of g (int k), g') \<and>
       length ru' = w g \<and> eroded_upto g k g'"
proof (induction k)
  case 0
  show ?case using wf len by (auto simp add: eroded_upto_def)
next
  case (Suc k)
  then obtain ru' gk where
    f: "fold erode_row [0..<k] (ru, row_of g (- 1), row_of g 0, g) =
          (ru', row_of g (int k - 1), row_of g (int k), gk)"
    and l: "length ru' = w g" and inv: "eroded_upto g k gk"
    by auto
  from Suc.prems have k: "k < h g" by simp
  from erode_row_step [OF k inv l] obtain g' where
    s: "erode_row k (ru', row_of g (int k - 1), row_of g (int k), gk) =
           (row_of g (int k - 1), row_of g (int k), row_of g (int k + 1), g')"
    and inv': "eroded_upto g (Suc k) g'"
    by blast
  have "fold erode_row [0..<Suc k] (ru, row_of g (- 1), row_of g 0, g) =
      (row_of g (int k - 1), row_of g (int (Suc k) - 1), row_of g (int (Suc k)), g')"
    using f s by (simp add: add.commute)
  with inv' show ?case by simp
qed

lemma init_rows_row_of: "init_rows g = (row_of g (- 1), row_of g 0)"
proof -
  have "get g (int i) (- 1) = False" for i
    by (simp add: get_def in_range_def)
  then show ?thesis
    by (simp add: init_rows_eq row_of_def map_replicate_const)
qed

lemma get_erode:
  assumes wf: "wf_BitGrid g"
  shows "get (erode g) x y = (get g x y \<and> ring_pairs g x y)"
proof -
  from erode_rows_fold [OF wf, of "new_row g" "h g"] obtain ru' g' where
    f: "fold erode_row [0..<h g] (new_row g, row_of g (- 1), row_of g 0, g) =
         (ru', row_of g (int (h g) - 1), row_of g (int (h g)), g')"
    and inv: "eroded_upto g (h g) g'"
    by (auto simp: new_row_def)
  have e: "erode g = g'"
    by (simp add: erode_def init_rows_row_of f)
  show ?thesis
  proof (cases "in_range g x y")
    case True
    with inv show ?thesis by (simp add: e eroded_upto_def in_range_def)
  next
    case False
    then have "get g x y = False" by (rule get_outside)
    with inv show ?thesis by (simp add: e eroded_upto_def)
  qed
qed

lemma erode_dims:
  assumes wf: "wf_BitGrid g"
  shows "w (erode g) = w g \<and> h (erode g) = h g \<and> wf_BitGrid (erode g)"
proof -
  from erode_rows_fold [OF wf, of "new_row g" "h g"] obtain ru' g' where
    f: "fold erode_row [0..<h g] (new_row g, row_of g (- 1), row_of g 0, g) =
         (ru', row_of g (int (h g) - 1), row_of g (int (h g)), g')"
    and inv: "eroded_upto g (h g) g'"
    by (auto simp: new_row_def)
  have e: "erode g = g'"
    by (simp add: erode_def init_rows_row_of f)
  with inv show ?thesis by (simp add: eroded_upto_def)
qed

lemmas nb_defs = nb_ul_def nb_u_def nb_ur_def nb_l_def nb_r_def nb_ll_def nb_d_def nb_lr_def

section \<open>Example grids\<close>

text \<open>A grid with every pixel set.\<close>

definition full_grid :: "nat \<Rightarrow> nat \<Rightarrow> BitGrid" where
  "full_grid wd ht = \<lparr> w = wd, h = ht, grid = replicate (wd * ht) True \<rparr>"

text \<open>
  A 2 by 2 grid with the pixels (0,0), (0,1) and (1,1) set: seen from (0,0), the
  neighbours d and lr are set and r is not.
\<close>

definition corner_grid :: BitGrid where
  "corner_grid = \<lparr> w = 2, h = 2, grid = [True, False, True, True] \<rparr>"

lemma wf_full_grid: "wf_BitGrid (full_grid wd ht)"
  by (simp add: wf_BitGrid_def full_grid_def)

lemma get_full_grid: "get (full_grid wd ht) x y = in_range (full_grid wd ht) x y"
  by (auto simp add: get_def full_grid_def wf_BitGrid_def dest: pos_less)

lemma wf_corner_grid: "wf_BitGrid corner_grid"
  by (simp add: wf_BitGrid_def corner_grid_def)

section \<open>The claims about erode()\<close>

text \<open>
  Claim C1, as the specification states it, fails: with the pairs (lr,l), (l,ll), (ll,d),
  (d,ul) of the specification, the pixel (0,0) of \<open>corner_grid\<close> would be cleared, since
  none of the specification's pairs has both members set there. erode() keeps it: its
  fifth pair is (lr,lm), the lower right and the lower middle neighbour, and both are set.
\<close>

theorem erode_spec_pairs_counterexample:
  "get (erode corner_grid) 0 0 \<noteq> (get corner_grid 0 0 \<and> spec_pairs corner_grid 0 0)"
  by code_simp

text \<open>
  Claim C1, amended: for every BitGrid and every in-range pixel \<open>(x, y)\<close>, after erode()
  the pixel is set if and only if it was set in the pre-erosion grid and at least one of
  the eight pairs (ul,u), (u,ur), (ur,r), (r,lr), (lr,d), (d,ll), (ll,l), (l,ul) of
  neighbours that are consecutive around the pixel had both members set in the
  pre-erosion grid, where a neighbour outside the grid counts as unset. All nine values
  are those of the grid before erode(), although the grid is changed in place.
\<close>

theorem erode_pixel_rule:
  assumes "wf_BitGrid g" and "in_range g x y"
  shows "get (erode g) x y =
     (get g x y \<and>
      ((nb_ul g x y \<and> nb_u g x y) \<or> (nb_u g x y \<and> nb_ur g x y) \<or>
       (nb_ur g x y \<and> nb_r g x y) \<or> (nb_r g x y \<and> nb_lr g x y) \<or>
       (nb_lr g x y \<and> nb_d g x y) \<or> (nb_d g x y \<and> nb_ll g x y) \<or>
       (nb_ll g x y \<and> nb_l g x y) \<or> (nb_l g x y \<and> nb_ul g x y)))"
  using get_erode [OF assms(1), of x y] by (simp add: ring_pairs_def)

theorem erode_pixel_rule_witness:
  "wf_BitGrid corner_grid \<and> in_range corner_grid 0 0 \<and> in_range corner_grid 0 1 \<and>
   get (erode corner_grid) 0 0 \<and> \<not> get (erode corner_grid) 0 1"
proof -
  have b: "in_range corner_grid 0 0" "in_range corner_grid 0 1"
    by (simp_all add: in_range_def corner_grid_def)
  show ?thesis
    using wf_corner_grid b
      erode_pixel_rule [OF wf_corner_grid b(1)] erode_pixel_rule [OF wf_corner_grid b(2)]
    by (simp add: nb_defs get_def in_range_def pos_def corner_grid_def)
qed

text \<open>
  Claim C4, as the specification states it, fails: after erode() on the 4 by 4 grid with
  every pixel set, it is not the case that the four corners are unset.
\<close>

theorem erode_full_4x4_counterexample:
  "\<not> (\<not> get (erode (full_grid 4 4)) 0 0 \<and> \<not> get (erode (full_grid 4 4)) 3 0 \<and>
      \<not> get (erode (full_grid 4 4)) 0 3 \<and> \<not> get (erode (full_grid 4 4)) 3 3)"
  by (simp add: get_erode wf_full_grid ring_pairs_def nb_defs get_full_grid)
    (simp add: in_range_def full_grid_def)

text \<open>
  Claim C4, amended: erode() on the 4 by 4 grid with every pixel set leaves all four
  corner cells set. A corner has three neighbours inside the grid, and they are
  consecutive around it.
\<close>

theorem erode_full_4x4_corners:
  "get (erode (full_grid 4 4)) 0 0 \<and> get (erode (full_grid 4 4)) 3 0 \<and>
   get (erode (full_grid 4 4)) 0 3 \<and> get (erode (full_grid 4 4)) 3 3"
  by (simp add: get_erode wf_full_grid ring_pairs_def nb_defs get_full_grid)
    (simp add: in_range_def full_grid_def)

text \<open>
  Claim C10: erode() is anti-extensive. For every BitGrid and every in-range pixel, a
  pixel that is set after erode() was set before.
\<close>

theorem erode_anti_extensive:
  assumes "wf_BitGrid g" and "in_range g x y" and "get (erode g) x y"
  shows "get g x y"
  using assms(3) by (simp add: get_erode [OF assms(1)])

theorem erode_anti_extensive_witness:
  "wf_BitGrid corner_grid \<and> in_range corner_grid 1 1 \<and> get (erode corner_grid) 1 1 \<and>
   get corner_grid 1 1"
proof -
  have b: "in_range corner_grid 1 1"
    by (simp add: in_range_def corner_grid_def)
  have c: "get (erode corner_grid) 1 1"
    by (simp add: get_erode [OF wf_corner_grid] ring_pairs_def nb_defs)
      (simp add: get_def in_range_def pos_def corner_grid_def)
  show ?thesis
    using wf_corner_grid b c erode_anti_extensive [OF wf_corner_grid b c] by simp
qed

section \<open>The raster source and the no-data predicate\<close>

text \<open>
  Modelled from the spec: the raster source (the GDAL library, an external collaborator).
  It exposes width, height and band count and, per band, a native tile size, a sample
  representation tag (byte or floating point) and a synchronous read of a window of
  samples in the representation the caller asks for. A band holds what such a read
  delivers at each pixel, as a byte and as a double; the type of a double is left open
  (\<open>'d\<close>), since the mask builder only hands doubles to the no-data predicate.
\<close>

record 'd Band =
  blocksize_x :: nat
  blocksize_y :: nat
  gdt_byte :: bool
  byte_at :: "nat \<Rightarrow> nat \<Rightarrow> 8 word"
  dbl_at :: "nat \<Rightarrow> nat \<Rightarrow> 'd"

record 'd Dataset =
  xsize :: nat
  ysize :: nat
  raster_bands :: "'d Band list"

definition GDALGetRasterXSize :: "'d Dataset \<Rightarrow> nat" where
  "GDALGetRasterXSize ds = xsize ds"

definition GDALGetRasterYSize :: "'d Dataset \<Rightarrow> nat" where
  "GDALGetRasterYSize ds = ysize ds"

definition GDALGetRasterCount :: "'d Dataset \<Rightarrow> nat" where
  "GDALGetRasterCount ds = length (raster_bands ds)"

text \<open>Bands are numbered from 1.\<close>

definition GDALGetRasterBand :: "'d Dataset \<Rightarrow> nat \<Rightarrow> 'd Band" where
  "GDALGetRasterBand ds band_idx = raster_bands ds ! (band_idx - 1)"

text \<open>
  A read of the window of \<open>bsize_x\<close> by \<open>bsize_y\<close> samples at \<open>(boff_x, boff_y)\<close>
  into a buffer, row after row. The block buffers of the source have room for a whole
  block; the read fills, and the loops use, the first \<open>bsize_x * bsize_y\<close> entries.
\<close>

definition GDALRasterIO :: "(nat \<Rightarrow> nat \<Rightarrow> 'a) \<Rightarrow> nat \<Rightarrow> nat \<Rightarrow> nat \<Rightarrow> nat \<Rightarrow> 'a list" where
  "GDALRasterIO at_px boff_x boff_y bsize_x bsize_y =
     map (\<lambda>p. at_px (boff_x + p mod bsize_x) (boff_y + p div bsize_x)) [0..<bsize_x * bsize_y]"

text \<open>The buffer the walk reads: \<open>block_buf_8bit\<close> behind \<open>p_8bit\<close>, or \<open>block_buf_dbl\<close> behind \<open>p_dbl\<close>.\<close>

datatype 'd block_buf = Buf8bit "8 word list" | BufDbl "'d list"

text \<open>
  Modelled from the spec: class NdvDef is declared in ndv.h, which is not among the
  sources. The spec gives it a classification of samples, one flag per sample of a row,
  by the position of the band in the band list, and an invert flag. The source calls
  arrayCheckNdv on bytes and on doubles; \<open>p\<close> is the position in the buffer the pointer
  of the source has reached, \<open>n\<close> the number of samples.
\<close>

record 'd NdvDef =
  invert :: bool
  ndv_8bit :: "nat \<Rightarrow> 8 word \<Rightarrow> bool"
  ndv_dbl :: "nat \<Rightarrow> 'd \<Rightarrow> bool"

definition isInvert :: "'d NdvDef \<Rightarrow> bool" where
  "isInvert ndv_def = invert ndv_def"

definition arrayCheckNdv :: "'d NdvDef \<Rightarrow> nat \<Rightarrow> 'd block_buf \<Rightarrow> nat \<Rightarrow> nat \<Rightarrow> bool list" where
  "arrayCheckNdv ndv_def band buf p n =
     (case buf of
        Buf8bit b \<Rightarrow> map (\<lambda>i. ndv_8bit ndv_def band (b ! (p + i))) [0..<n]
      | BufDbl b \<Rightarrow> map (\<lambda>i. ndv_dbl ndv_def band (b ! (p + i))) [0..<n])"

text \<open>
  Modelled from the spec: \<open>fatal_error\<close> is declared in common.h, which is not among
  the sources; the spec makes a band index out of range a fatal configuration error that
  aborts the build.
\<close>

datatype error = FatalError string

section \<open>get_bitgrid_for_dataset (mask.cc, lines 114 to 243)\<close>

text \<open>
  The calls of GDALTermProgress, of printf and of the DebugPlot collaborator do not touch
  the mask and are left out. The variable \<open>mask\<close> of the source is \<open>msk\<close> here.
  \<open>size_t\<close> values are natural numbers; no sum of the source comes near \<open>2^64\<close> on a
  raster that fits in memory.
\<close>

text \<open>
  Lines 212 to 224: the three loops over the row of flags, by the position of the band in
  the band list and the invert flag.
\<close>

definition update_row ::
  "nat \<Rightarrow> bool \<Rightarrow> bool list \<Rightarrow> nat \<Rightarrow> nat \<Rightarrow> nat \<Rightarrow> BitGrid \<Rightarrow> BitGrid"
where
  "update_row bandlist_idx invrt row_ndv boff_x y bsize_x msk =
     (if bandlist_idx = 0 then
        fold (\<lambda>i m. set_px m (int (boff_x + i)) (int y) (\<not> row_ndv ! i)) [0..<bsize_x] msk
      else if invrt then
        fold (\<lambda>i m. if row_ndv ! i then set_px m (int (boff_x + i)) (int y) False else m)
          [0..<bsize_x] msk
      else
        fold (\<lambda>i m. if \<not> row_ndv ! i then set_px m (int (boff_x + i)) (int y) True else m)
          [0..<bsize_x] msk)"

text \<open>
  Lines 186 to 225, one row \<open>j\<close> of a block: the state is the position \<open>p\<close> of the pointer
  in the block buffer and the mask. The loop of lines 196 to 210 advances the pointer by
  \<open>bsize_x\<close>.
\<close>

definition block_row ::
  "'d NdvDef \<Rightarrow> nat \<Rightarrow> 'd block_buf \<Rightarrow> nat \<Rightarrow> nat \<Rightarrow> nat \<Rightarrow> nat \<Rightarrow> nat \<times> BitGrid \<Rightarrow> nat \<times> BitGrid"
where
  "block_row ndv_def bandlist_idx buf boff_x boff_y bsize_x j st =
     (let p = fst st; msk = snd st;
          y = j + boff_y;
          row_ndv = arrayCheckNdv ndv_def bandlist_idx buf p bsize_x;
          p' = p + bsize_x;
          msk' = update_row bandlist_idx (isInvert ndv_def) row_ndv boff_x y bsize_x msk
      in (p', msk'))"

text \<open>Lines 171 to 225: one block is read and its rows are applied to the mask.\<close>

definition do_block ::
  "'d NdvDef \<Rightarrow> nat \<Rightarrow> 'd Band \<Rightarrow> nat \<Rightarrow> nat \<Rightarrow> nat \<Rightarrow> nat \<Rightarrow> BitGrid \<Rightarrow> BitGrid"
where
  "do_block ndv_def bandlist_idx band boff_x boff_y bsize_x bsize_y msk =
     (let use_8bit = gdt_byte band;
          buf = (if use_8bit then Buf8bit (GDALRasterIO (byte_at band) boff_x boff_y bsize_x bsize_y)
                 else BufDbl (GDALRasterIO (dbl_at band) boff_x boff_y bsize_x bsize_y))
      in snd (fold (block_row ndv_def bandlist_idx buf boff_x boff_y bsize_x) [0..<bsize_y]
           (0, msk)))"

text \<open>
  Lines 159 to 226, \<open>for(size_t boff_x=0; boff_x<w; boff_x+=blocksize_x)\<close>: with a
  block size of 0 the loop does not end, and the function has no value (None).
\<close>

partial_function (option) scan_x ::
  "'d NdvDef \<Rightarrow> nat \<Rightarrow> 'd Band \<Rightarrow> nat \<Rightarrow> nat \<Rightarrow> nat \<Rightarrow> nat \<Rightarrow> BitGrid \<Rightarrow> BitGrid option"
where
  "scan_x ndv_def bandlist_idx band wd boff_y bsize_y boff_x msk =
     (if boff_x < wd then
        (let bsize_x = (if blocksize_x band + boff_x > wd then wd - boff_x
                        else blocksize_x band)
         in scan_x ndv_def bandlist_idx band wd boff_y bsize_y (boff_x + blocksize_x band)
              (do_block ndv_def bandlist_idx band boff_x boff_y bsize_x bsize_y msk))
      else Some msk)"

text \<open>Lines 156 to 227, \<open>for(size_t boff_y=0; boff_y<h; boff_y+=blocksize_y)\<close>.\<close>

partial_function (option) scan_y ::
  "'d NdvDef \<Rightarrow> nat \<Rightarrow> 'd Band \<Rightarrow> nat \<Rightarrow> nat \<Rightarrow> nat \<Rightarrow> BitGrid \<Rightarrow> BitGrid option"
where
  "scan_y ndv_def bandlist_idx band wd ht boff_y msk =
     (if boff_y < ht then
        (let bsize_y = (if blocksize_y band + boff_y > ht then ht - boff_y
                        else blocksize_y band)
         in Option.bind (scan_x ndv_def bandlist_idx band wd boff_y bsize_y 0 msk)
              (\<lambda>msk'. scan_y ndv_def bandlist_idx band wd ht (boff_y + blocksize_y band) msk'))
      else Some msk)"

declare scan_x.simps [code]
declare scan_y.simps [code]

text \<open>
  Lines 128 to 228, the loop over the band list: \<open>bandlist_idx\<close> counts the bands done,
  the list holds the bands still to do.
\<close>

fun band_loop ::
  "'d Dataset \<Rightarrow> 'd NdvDef \<Rightarrow> nat \<Rightarrow> nat list \<Rightarrow> BitGrid \<Rightarrow> (error + BitGrid) option"
where
  "band_loop ds ndv_def bandlist_idx [] msk = Some (Inr msk)"
| "band_loop ds ndv_def bandlist_idx (band_idx # rest) msk =
     (if band_idx < 1 \<or> band_idx > GDALGetRasterCount ds
      then Some (Inl (FatalError ''bandid out of range''))
      else
        (case scan_y ndv_def bandlist_idx (GDALGetRasterBand ds band_idx)
                (GDALGetRasterXSize ds) (GDALGetRasterYSize ds) 0 msk of
           None \<Rightarrow> None
         | Some msk' \<Rightarrow> band_loop ds ndv_def (bandlist_idx + 1) rest msk'))"

definition get_bitgrid_for_dataset ::
  "'d Dataset \<Rightarrow> nat list \<Rightarrow> 'd NdvDef \<Rightarrow> (error + BitGrid) option"
where
  "get_bitgrid_for_dataset ds bandlist ndv_def =
     (let wd = GDALGetRasterXSize ds; ht = GDALGetRasterYSize ds;
          msk = zero (new_BitGrid wd ht)
      in band_loop ds ndv_def 0 bandlist msk)"

subsection \<open>What the scan computes, pixel by pixel\<close>

text \<open>Whether the pixel \<open>(x, y)\<close> of a band is no-data for the band at a position of the band list.\<close>

definition band_ndv :: "'d NdvDef \<Rightarrow> nat \<Rightarrow> 'd Band \<Rightarrow> nat \<Rightarrow> nat \<Rightarrow> bool" where
  "band_ndv ndv_def bandlist_idx band x y =
     (if gdt_byte band then ndv_8bit ndv_def bandlist_idx (byte_at band x y)
      else ndv_dbl ndv_def bandlist_idx (dbl_at band x y))"

text \<open>The same for the band that the band list names at position \<open>k\<close>.\<close>

definition is_ndv :: "'d Dataset \<Rightarrow> 'd NdvDef \<Rightarrow> nat list \<Rightarrow> nat \<Rightarrow> nat \<Rightarrow> nat \<Rightarrow> bool" where
  "is_ndv ds ndv_def bandlist k x y =
     band_ndv ndv_def k (GDALGetRasterBand ds (bandlist ! k)) x y"

text \<open>
  The effect of lines 212 to 224 on one pixel: \<open>old\<close> is the pixel of the mask, \<open>nd\<close> its
  flag in \<open>row_ndv\<close>.
\<close>

definition combine :: "nat \<Rightarrow> bool \<Rightarrow> bool \<Rightarrow> bool \<Rightarrow> bool" where
  "combine bandlist_idx invrt old nd =
     (if bandlist_idx = 0 then \<not> nd else if invrt then old \<and> \<not> nd else old \<or> \<not> nd)"

text \<open>
  The combination rule in the words of the specification. The band at position 0 seeds the
  mask: a pixel is included if and only if it is not no-data in that band. A later band
  with invert = false includes a pixel that is not no-data in it and removes none; a later
  band with invert = true excludes a pixel that is no-data in it and adds none.
  \<open>mask_after invrt nd k\<close> is the pixel after the bands at positions 0 to \<open>k\<close>, where
  \<open>nd j\<close> says whether the pixel is no-data in the band at position \<open>j\<close>.
\<close>

fun mask_after :: "bool \<Rightarrow> (nat \<Rightarrow> bool) \<Rightarrow> nat \<Rightarrow> bool" where
  "mask_after invrt nd 0 = (\<not> nd 0)"
| "mask_after invrt nd (Suc k) =
     (if invrt then mask_after invrt nd k \<and> \<not> nd (Suc k)
      else mask_after invrt nd k \<or> \<not> nd (Suc k))"

text \<open>
  A raster source is well formed when every band has a tile of at least one pixel each way,
  and a band list is valid for it when every entry is in \<open>[1, band_count]\<close>.
\<close>

definition wf_Dataset :: "'d Dataset \<Rightarrow> bool" where
  "wf_Dataset ds = list_all (\<lambda>b. 0 < blocksize_x b \<and> 0 < blocksize_y b) (raster_bands ds)"

definition valid_bandlist :: "'d Dataset \<Rightarrow> nat list \<Rightarrow> bool" where
  "valid_bandlist ds bandlist = list_all (\<lambda>b. 1 \<le> b \<and> b \<le> GDALGetRasterCount ds) bandlist"

text \<open>Auxiliary notions for the loop invariants.\<close>

definition same_shape :: "BitGrid \<Rightarrow> BitGrid \<Rightarrow> bool" where
  "same_shape m m' = (w m' = w m \<and> h m' = h m \<and> wf_BitGrid m')"

definition block_buffer :: "'d Band \<Rightarrow> nat \<Rightarrow> nat \<Rightarrow> nat \<Rightarrow> nat \<Rightarrow> 'd block_buf" where
  "block_buffer band ox oy sx sy =
     (if gdt_byte band then Buf8bit (GDALRasterIO (byte_at band) ox oy sx sy)
      else BufDbl (GDALRasterIO (dbl_at band) ox oy sx sy))"

subsection \<open>Properties of the scan\<close>

lemma same_shape_refl: "wf_BitGrid m \<Longrightarrow> same_shape m m"
  by (simp add: same_shape_def)

lemma same_shape_trans: "same_shape m m1 \<Longrightarrow> same_shape m1 m2 \<Longrightarrow> same_shape m m2"
  by (simp add: same_shape_def)

lemma get_set_px_nat:
  assumes "wf_BitGrid m" and "x < w m" and "y < h m"
  shows "get (set_px m (int x) (int y) v) (int x') (int y') =
     (if x' = x \<and> y' = y then v else get m (int x') (int y'))"
proof -
  have "in_range m (int x) (int y)" using assms by (simp add: in_range_def)
  from get_set_px [OF assms(1) this] show ?thesis by simp
qed

lemma fold_set_px:
  assumes wf: "wf_BitGrid m" and y: "y < h m"
  shows "bx + n \<le> w m \<Longrightarrow>
     same_shape m (fold (\<lambda>i m. if c i then set_px m (int (bx + i)) (int y) (v i) else m) [0..<n] m) \<and>
     (\<forall>x' y'. get (fold (\<lambda>i m. if c i then set_px m (int (bx + i)) (int y) (v i) else m) [0..<n] m)
          (int x') (int y') =
        (if y' = y \<and> bx \<le> x' \<and> x' < bx + n \<and> c (x' - bx) then v (x' - bx)
         else get m (int x') (int y')))"
proof (induction n)
  case 0
  show ?case using wf by (auto simp add: same_shape_def)
next
  case (Suc n)
  let ?f = "\<lambda>i m. if c i then set_px m (int (bx + i)) (int y) (v i) else m"
  define mn where "mn = fold ?f [0..<n] m"
  from Suc have sh: "same_shape m mn"
    and gt: "\<And>x' y'. get mn (int x') (int y') =
        (if y' = y \<and> bx \<le> x' \<and> x' < bx + n \<and> c (x' - bx) then v (x' - bx)
         else get m (int x') (int y'))"
    by (simp_all add: mn_def)
  have st: "fold ?f [0..<Suc n] m = ?f n mn"
    by (simp add: mn_def)
  from sh have wfn: "wf_BitGrid mn" and xn: "bx + n < w mn" and yn: "y < h mn"
    using Suc.prems y by (simp_all add: same_shape_def)
  have sh': "same_shape m (?f n mn)"
    using sh by (simp add: same_shape_def)
  have step: "get (?f n mn) (int x') (int y') =
        (if c n \<and> x' = bx + n \<and> y' = y then v n else get mn (int x') (int y'))" for x' y'
    by (simp del: of_nat_add add: get_set_px_nat [OF wfn xn yn])
  have "get (?f n mn) (int x') (int y') =
        (if y' = y \<and> bx \<le> x' \<and> x' < bx + Suc n \<and> c (x' - bx) then v (x' - bx)
         else get m (int x') (int y'))" for x' y'
  proof (cases "x' = bx + n")
    case True
    then show ?thesis unfolding step gt by (simp del: of_nat_add)
  next
    case False
    then have "(x' < bx + Suc n) = (x' < bx + n)" by arith
    with False show ?thesis unfolding step gt by (simp del: of_nat_add)
  qed
  with sh' show ?case unfolding st by blast
qed

lemma update_row_get:
  assumes wf: "wf_BitGrid m" and y: "y < h m" and n: "bx + n \<le> w m"
  shows "same_shape m (update_row k invrt row bx y n m) \<and>
     (\<forall>x' y'. get (update_row k invrt row bx y n m) (int x') (int y') =
        (if y' = y \<and> bx \<le> x' \<and> x' < bx + n
         then combine k invrt (get m (int x') (int y')) (row ! (x' - bx))
         else get m (int x') (int y')))"
proof -
  have a: "fold (\<lambda>i m. set_px m (int (bx + i)) (int y) (\<not> row ! i)) [0..<n] m =
      fold (\<lambda>i m. if True then set_px m (int (bx + i)) (int y) (\<not> row ! i) else m) [0..<n] m"
    by simp
  show ?thesis
  proof (cases "k = 0")
    case True
    then have u: "update_row k invrt row bx y n m =
        fold (\<lambda>i m. if True then set_px m (int (bx + i)) (int y) (\<not> row ! i) else m) [0..<n] m"
      by (simp add: update_row_def)
    show ?thesis
      unfolding u using fold_set_px [OF wf y n, of "\<lambda>i. True" "\<lambda>i. \<not> row ! i"] True
      by (simp add: combine_def)
  next
    case False
    show ?thesis
    proof (cases invrt)
      case True
      with False have u: "update_row k invrt row bx y n m =
          fold (\<lambda>i m. if row ! i then set_px m (int (bx + i)) (int y) False else m) [0..<n] m"
        by (simp add: update_row_def)
      show ?thesis
        unfolding u using fold_set_px [OF wf y n, of "\<lambda>i. row ! i" "\<lambda>i. False"] True False
        by (auto simp add: combine_def)
    next
      case nt: False
      with False have u: "update_row k invrt row bx y n m =
          fold (\<lambda>i m. if \<not> row ! i then set_px m (int (bx + i)) (int y) True else m) [0..<n] m"
        by (simp add: update_row_def)
      show ?thesis
        unfolding u using fold_set_px [OF wf y n, of "\<lambda>i. \<not> row ! i" "\<lambda>i. True"] nt False
        by (auto simp add: combine_def)
    qed
  qed
qed

lemma GDALRasterIO_nth:
  assumes i: "i < sx" and j: "j < sy"
  shows "GDALRasterIO at_px ox oy sx sy ! (j * sx + i) = at_px (ox + i) (oy + j)"
proof -
  have "j * sx + i < j * sx + sx" using i by simp
  also have "\<dots> = Suc j * sx" by simp
  also have "\<dots> \<le> sy * sx" using j by (intro mult_le_mono1) simp
  finally have lt: "j * sx + i < sx * sy" by (simp add: mult.commute)
  have "(j * sx + i) mod sx = i" "(j * sx + i) div sx = j"
    using i by simp_all
  with lt show ?thesis by (simp add: GDALRasterIO_def)
qed

lemma arrayCheckNdv_nth:
  assumes i: "i < sx" and j: "j < sy"
  shows "arrayCheckNdv ndv_def k (block_buffer band ox oy sx sy) (j * sx) sx ! i =
     band_ndv ndv_def k band (ox + i) (oy + j)"
  using i by (simp add: arrayCheckNdv_def block_buffer_def band_ndv_def
      GDALRasterIO_nth [OF i j])

lemma block_row_fold:
  assumes wf: "wf_BitGrid m" and xs: "ox + sx \<le> w m" and ys: "oy + sy \<le> h m"
  shows "n \<le> sy \<Longrightarrow>
     fst (fold (block_row ndv_def k (block_buffer band ox oy sx sy) ox oy sx) [0..<n] (0, m)) =
       n * sx \<and>
     same_shape m
       (snd (fold (block_row ndv_def k (block_buffer band ox oy sx sy) ox oy sx) [0..<n] (0, m))) \<and>
     (\<forall>x' y'. get (snd (fold (block_row ndv_def k (block_buffer band ox oy sx sy) ox oy sx)
                    [0..<n] (0, m))) (int x') (int y') =
        (if ox \<le> x' \<and> x' < ox + sx \<and> oy \<le> y' \<and> y' < oy + n
         then combine k (isInvert ndv_def) (get m (int x') (int y')) (band_ndv ndv_def k band x' y')
         else get m (int x') (int y')))"
proof (induction n)
  case 0
  show ?case using wf by (auto simp add: same_shape_def)
next
  case (Suc n)
  let ?buf = "block_buffer band ox oy sx sy"
  define st where "st = fold (block_row ndv_def k ?buf ox oy sx) [0..<n] (0, m)"
  define mn where "mn = snd st"
  from Suc have p: "fst st = n * sx" and sh: "same_shape m mn"
    and gt: "\<And>x' y'. get mn (int x') (int y') =
        (if ox \<le> x' \<and> x' < ox + sx \<and> oy \<le> y' \<and> y' < oy + n
         then combine k (isInvert ndv_def) (get m (int x') (int y')) (band_ndv ndv_def k band x' y')
         else get m (int x') (int y'))"
    by (simp_all add: st_def mn_def)
  from Suc.prems have n: "n < sy" by simp
  define row where "row = arrayCheckNdv ndv_def k ?buf (n * sx) sx"
  define m' where "m' = update_row k (isInvert ndv_def) row ox (n + oy) sx mn"
  have stp: "fold (block_row ndv_def k ?buf ox oy sx) [0..<Suc n] (0, m) = (n * sx + sx, m')"
    using p by (simp add: st_def [symmetric] block_row_def Let_def row_def m'_def mn_def)
  from sh have wfn: "wf_BitGrid mn" and yn: "n + oy < h mn" and xn: "ox + sx \<le> w mn"
    using n xs ys by (simp_all add: same_shape_def)
  from update_row_get [OF wfn yn xn, of k "isInvert ndv_def" row]
  have sh': "same_shape mn m'"
    and gt': "\<And>x' y'. get m' (int x') (int y') =
        (if y' = n + oy \<and> ox \<le> x' \<and> x' < ox + sx
         then combine k (isInvert ndv_def) (get mn (int x') (int y')) (row ! (x' - ox))
         else get mn (int x') (int y'))"
    by (simp_all add: m'_def)
  have rw: "row ! (x' - ox) = band_ndv ndv_def k band x' (oy + n)" if "ox \<le> x'" "x' < ox + sx" for x'
  proof -
    from that have "x' - ox < sx" by arith
    from arrayCheckNdv_nth [OF this n, of ndv_def k band ox oy] that(1)
    show ?thesis by (simp add: row_def)
  qed
  have "get m' (int x') (int y') =
        (if ox \<le> x' \<and> x' < ox + sx \<and> oy \<le> y' \<and> y' < oy + Suc n
         then combine k (isInvert ndv_def) (get m (int x') (int y')) (band_ndv ndv_def k band x' y')
         else get m (int x') (int y'))" for x' y'
  proof (cases "y' = n + oy")
    case True
    then show ?thesis unfolding gt' gt by (simp add: rw add.commute)
  next
    case False
    then have "(y' < oy + Suc n) = (y' < oy + n)" by arith
    with False show ?thesis unfolding gt' gt by simp
  qed
  with same_shape_trans [OF sh sh'] show ?case
    unfolding stp by simp
qed

lemma do_block_get:
  assumes wf: "wf_BitGrid m" and xs: "ox + sx \<le> w m" and ys: "oy + sy \<le> h m"
  shows "same_shape m (do_block ndv_def k band ox oy sx sy m) \<and>
     (\<forall>x' y'. get (do_block ndv_def k band ox oy sx sy m) (int x') (int y') =
        (if ox \<le> x' \<and> x' < ox + sx \<and> oy \<le> y' \<and> y' < oy + sy
         then combine k (isInvert ndv_def) (get m (int x') (int y')) (band_ndv ndv_def k band x' y')
         else get m (int x') (int y')))"
proof -
  have "do_block ndv_def k band ox oy sx sy m =
      snd (fold (block_row ndv_def k (block_buffer band ox oy sx sy) ox oy sx) [0..<sy] (0, m))"
    by (simp add: do_block_def block_buffer_def Let_def)
  with block_row_fold [OF wf xs ys, of sy ndv_def k band] show ?thesis by simp
qed

lemma scan_x_total:
  assumes bs: "0 < blocksize_x band" and ys: "oy + sy \<le> ht"
  shows "wf_BitGrid m \<Longrightarrow> w m = wd \<Longrightarrow> h m = ht \<Longrightarrow>
     \<exists>m'. scan_x ndv_def k band wd oy sy ox m = Some m' \<and> same_shape m m' \<and>
       (\<forall>x' y'. get m' (int x') (int y') =
          (if ox \<le> x' \<and> x' < wd \<and> oy \<le> y' \<and> y' < oy + sy
           then combine k (isInvert ndv_def) (get m (int x') (int y'))
                  (band_ndv ndv_def k band x' y')
           else get m (int x') (int y')))"
proof (induction "wd - ox" arbitrary: ox m rule: less_induct)
  case less
  show ?case
  proof (cases "ox < wd")
    case False
    then have "scan_x ndv_def k band wd oy sy ox m = Some m"
      by (subst scan_x.simps) simp
    with False less.prems show ?thesis
      by (auto simp add: same_shape_def)
  next
    case True
    define sx where "sx = (if blocksize_x band + ox > wd then wd - ox else blocksize_x band)"
    define m1 where "m1 = do_block ndv_def k band ox oy sx sy m"
    have sxw: "ox + sx \<le> w m" and sxb: "sx \<le> blocksize_x band"
      and sxe: "sx = blocksize_x band \<or> ox + sx = wd"
      using True less.prems by (auto simp add: sx_def)
    have ysh: "oy + sy \<le> h m" using ys less.prems by simp
    from do_block_get [OF less.prems(1) sxw ysh, of ndv_def k band]
    have sh1: "same_shape m m1"
      and g1: "\<And>x' y'. get m1 (int x') (int y') =
          (if ox \<le> x' \<and> x' < ox + sx \<and> oy \<le> y' \<and> y' < oy + sy
           then combine k (isInvert ndv_def) (get m (int x') (int y'))
                  (band_ndv ndv_def k band x' y')
           else get m (int x') (int y'))"
      by (simp_all add: m1_def)
    have dec: "wd - (ox + blocksize_x band) < wd - ox"
      using True bs by arith
    from sh1 less.prems have p1: "wf_BitGrid m1" "w m1 = wd" "h m1 = ht"
      by (simp_all add: same_shape_def)
    from less.hyps [OF dec p1] obtain m' where
      r: "scan_x ndv_def k band wd oy sy (ox + blocksize_x band) m1 = Some m'"
      and sh2: "same_shape m1 m'"
      and g2: "\<And>x' y'. get m' (int x') (int y') =
          (if ox + blocksize_x band \<le> x' \<and> x' < wd \<and> oy \<le> y' \<and> y' < oy + sy
           then combine k (isInvert ndv_def) (get m1 (int x') (int y'))
                  (band_ndv ndv_def k band x' y')
           else get m1 (int x') (int y'))"
      by blast
    have e: "scan_x ndv_def k band wd oy sy ox m = Some m'"
      using True r by (subst scan_x.simps) (simp add: sx_def m1_def Let_def)
    have "get m' (int x') (int y') =
          (if ox \<le> x' \<and> x' < wd \<and> oy \<le> y' \<and> y' < oy + sy
           then combine k (isInvert ndv_def) (get m (int x') (int y'))
                  (band_ndv ndv_def k band x' y')
           else get m (int x') (int y'))" for x' y'
    proof (cases "x' < ox + sx")
      case True
      then have "\<not> ox + blocksize_x band \<le> x'" using sxb by arith
      moreover from True sxw less.prems have "x' < wd" by simp
      ultimately show ?thesis using True unfolding g2 g1 by simp
    next
      case False
      show ?thesis
      proof (cases "x' < wd")
        case True
        with False sxe have "sx = blocksize_x band" by arith
        with False True have "ox + blocksize_x band \<le> x'" "ox \<le> x'" by arith+
        with False True show ?thesis unfolding g2 g1 by simp
      next
        case nw: False
        with False show ?thesis unfolding g2 g1 by simp
      qed
    qed
    with e same_shape_trans [OF sh1 sh2] show ?thesis by blast
  qed
qed

lemma scan_y_total:
  assumes bsx: "0 < blocksize_x band" and bsy: "0 < blocksize_y band"
  shows "wf_BitGrid m \<Longrightarrow> w m = wd \<Longrightarrow> h m = ht \<Longrightarrow>
     \<exists>m'. scan_y ndv_def k band wd ht oy m = Some m' \<and> same_shape m m' \<and>
       (\<forall>x' y'. get m' (int x') (int y') =
          (if x' < wd \<and> oy \<le> y' \<and> y' < ht
           then combine k (isInvert ndv_def) (get m (int x') (int y'))
                  (band_ndv ndv_def k band x' y')
           else get m (int x') (int y')))"
proof (induction "ht - oy" arbitrary: oy m rule: less_induct)
  case less
  show ?case
  proof (cases "oy < ht")
    case False
    then have "scan_y ndv_def k band wd ht oy m = Some m"
      by (subst scan_y.simps) simp
    with False less.prems show ?thesis
      by (auto simp add: same_shape_def)
  next
    case True
    define sy where "sy = (if blocksize_y band + oy > ht then ht - oy else blocksize_y band)"
    have syh: "oy + sy \<le> ht" and syb: "sy \<le> blocksize_y band"
      and sye: "sy = blocksize_y band \<or> oy + sy = ht"
      using True by (auto simp add: sy_def)
    from scan_x_total [OF bsx syh less.prems, of ndv_def k 0] obtain m1 where
      r1: "scan_x ndv_def k band wd oy sy 0 m = Some m1"
      and sh1: "same_shape m m1"
      and g1: "\<And>x' y'. get m1 (int x') (int y') =
          (if x' < wd \<and> oy \<le> y' \<and> y' < oy + sy
           then combine k (isInvert ndv_def) (get m (int x') (int y'))
                  (band_ndv ndv_def k band x' y')
           else get m (int x') (int y'))"
      by auto
    have dec: "ht - (oy + blocksize_y band) < ht - oy"
      using True bsy by arith
    from sh1 less.prems have p1: "wf_BitGrid m1" "w m1 = wd" "h m1 = ht"
      by (simp_all add: same_shape_def)
    from less.hyps [OF dec p1] obtain m' where
      r: "scan_y ndv_def k band wd ht (oy + blocksize_y band) m1 = Some m'"
      and sh2: "same_shape m1 m'"
      and g2: "\<And>x' y'. get m' (int x') (int y') =
          (if x' < wd \<and> oy + blocksize_y band \<le> y' \<and> y' < ht
           then combine k (isInvert ndv_def) (get m1 (int x') (int y'))
                  (band_ndv ndv_def k band x' y')
           else get m1 (int x') (int y'))"
      by blast
    have e: "scan_y ndv_def k band wd ht oy m = Some m'"
      using True r r1 by (subst scan_y.simps) (simp add: sy_def Let_def)
    have "get m' (int x') (int y') =
          (if x' < wd \<and> oy \<le> y' \<and> y' < ht
           then combine k (isInvert ndv_def) (get m (int x') (int y'))
                  (band_ndv ndv_def k band x' y')
           else get m (int x') (int y'))" for x' y'
    proof (cases "y' < oy + sy")
      case True
      then have "\<not> oy + blocksize_y band \<le> y'" using syb by arith
      moreover from True syh have "y' < ht" by simp
      ultimately show ?thesis using True unfolding g2 g1 by simp
    next
      case False
      show ?thesis
      proof (cases "y' < ht")
        case True
        with False sye have "sy = blocksize_y band" by arith
        with False True have "oy + blocksize_y band \<le> y'" "oy \<le> y'" by arith+
        with False True show ?thesis unfolding g2 g1 by simp
      next
        case nw: False
        with False show ?thesis unfolding g2 g1 by simp
      qed
    qed
    with e same_shape_trans [OF sh1 sh2] show ?thesis by blast
  qed
qed

lemma combine_mask_after:
  "combine k invrt (mask_after invrt nd (k - 1)) (nd k) = mask_after invrt nd k"
  by (cases k) (simp_all add: combine_def)

lemma valid_band_wf:
  assumes "wf_Dataset ds" and "1 \<le> b" and "b \<le> GDALGetRasterCount ds"
  shows "0 < blocksize_x (GDALGetRasterBand ds b) \<and> 0 < blocksize_y (GDALGetRasterBand ds b)"
proof -
  from assms(2,3) have "b - 1 < length (raster_bands ds)"
    by (simp add: GDALGetRasterCount_def)
  then have "raster_bands ds ! (b - 1) \<in> set (raster_bands ds)" by simp
  with assms(1) show ?thesis
    by (simp add: wf_Dataset_def list_all_iff GDALGetRasterBand_def)
qed

lemma scan_band_total:
  assumes "wf_Dataset ds" and "1 \<le> b" and "b \<le> GDALGetRasterCount ds"
    and "wf_BitGrid m" and "w m = GDALGetRasterXSize ds" and "h m = GDALGetRasterYSize ds"
  shows "\<exists>m'. scan_y ndv_def k (GDALGetRasterBand ds b) (GDALGetRasterXSize ds)
            (GDALGetRasterYSize ds) 0 m = Some m' \<and> same_shape m m' \<and>
       (\<forall>x' y'. x' < GDALGetRasterXSize ds \<longrightarrow> y' < GDALGetRasterYSize ds \<longrightarrow>
          get m' (int x') (int y') =
            combine k (isInvert ndv_def) (get m (int x') (int y'))
              (band_ndv ndv_def k (GDALGetRasterBand ds b) x' y'))"
proof -
  from valid_band_wf [OF assms(1-3)]
  have px: "0 < blocksize_x (GDALGetRasterBand ds b)"
    and py: "0 < blocksize_y (GDALGetRasterBand ds b)"
    by simp_all
  from scan_y_total [OF px py assms(4-6), of ndv_def k 0] show ?thesis
    by auto
qed

lemma band_loop_total:
  assumes wfd: "wf_Dataset ds" and valid: "valid_bandlist ds bandlist"
  shows "k \<le> length bandlist \<Longrightarrow> wf_BitGrid m \<Longrightarrow>
     w m = GDALGetRasterXSize ds \<Longrightarrow> h m = GDALGetRasterYSize ds \<Longrightarrow>
     (0 < k \<Longrightarrow> \<forall>x' y'. x' < GDALGetRasterXSize ds \<longrightarrow> y' < GDALGetRasterYSize ds \<longrightarrow>
        get m (int x') (int y') =
          mask_after (isInvert ndv_def) (\<lambda>j. is_ndv ds ndv_def bandlist j x' y') (k - 1)) \<Longrightarrow>
     \<exists>m'. band_loop ds ndv_def k (drop k bandlist) m = Some (Inr m') \<and> same_shape m m' \<and>
       (0 < length bandlist \<longrightarrow>
         (\<forall>x' y'. x' < GDALGetRasterXSize ds \<longrightarrow> y' < GDALGetRasterYSize ds \<longrightarrow>
            get m' (int x') (int y') =
              mask_after (isInvert ndv_def) (\<lambda>j. is_ndv ds ndv_def bandlist j x' y')
                (length bandlist - 1)))"
proof (induction "length bandlist - k" arbitrary: k m rule: less_induct)
  case less
  show ?case
  proof (cases "k = length bandlist")
    case True
    then have "band_loop ds ndv_def k (drop k bandlist) m = Some (Inr m)" by simp
    moreover have "same_shape m m" using less.prems(2) by (rule same_shape_refl)
    ultimately show ?thesis using less.prems(5) True by auto
  next
    case False
    with less.prems(1) have kl: "k < length bandlist" by simp
    define b where "b = bandlist ! k"
    have dr: "drop k bandlist = b # drop (Suc k) bandlist"
      using kl by (simp add: b_def Cons_nth_drop_Suc)
    have "b \<in> set bandlist" using kl by (simp add: b_def)
    with valid have b1: "1 \<le> b" and b2: "b \<le> GDALGetRasterCount ds"
      by (simp_all add: valid_bandlist_def list_all_iff)
    from scan_band_total [OF wfd b1 b2 less.prems(2-4), of ndv_def k] obtain m1 where
      r1: "scan_y ndv_def k (GDALGetRasterBand ds b) (GDALGetRasterXSize ds)
            (GDALGetRasterYSize ds) 0 m = Some m1"
      and sh1: "same_shape m m1"
      and g1: "\<And>x' y'. x' < GDALGetRasterXSize ds \<Longrightarrow> y' < GDALGetRasterYSize ds \<Longrightarrow>
          get m1 (int x') (int y') =
            combine k (isInvert ndv_def) (get m (int x') (int y'))
              (band_ndv ndv_def k (GDALGetRasterBand ds b) x' y')"
      by blast
    from sh1 less.prems have p1: "wf_BitGrid m1" "w m1 = GDALGetRasterXSize ds"
      "h m1 = GDALGetRasterYSize ds"
      by (simp_all add: same_shape_def)
    have inv1: "\<forall>x' y'. x' < GDALGetRasterXSize ds \<longrightarrow> y' < GDALGetRasterYSize ds \<longrightarrow>
        get m1 (int x') (int y') =
          mask_after (isInvert ndv_def) (\<lambda>j. is_ndv ds ndv_def bandlist j x' y') (Suc k - 1)"
    proof (intro allI impI)
      fix x' y'
      assume xy: "x' < GDALGetRasterXSize ds" "y' < GDALGetRasterYSize ds"
      let ?nd = "\<lambda>j. is_ndv ds ndv_def bandlist j x' y'"
      have nd: "band_ndv ndv_def k (GDALGetRasterBand ds b) x' y' = ?nd k"
        by (simp add: is_ndv_def b_def)
      have old: "combine k (isInvert ndv_def) (get m (int x') (int y')) (?nd k) =
          combine k (isInvert ndv_def) (mask_after (isInvert ndv_def) ?nd (k - 1)) (?nd k)"
      proof (cases "k = 0")
        case True
        then show ?thesis by (simp add: combine_def)
      next
        case False
        with less.prems(5) xy show ?thesis by simp
      qed
      have "get m1 (int x') (int y') =
          combine k (isInvert ndv_def) (get m (int x') (int y')) (?nd k)"
        using g1 [OF xy] by (simp add: nd)
      also have "\<dots> =
          combine k (isInvert ndv_def) (mask_after (isInvert ndv_def) ?nd (k - 1)) (?nd k)"
        by (rule old)
      also have "\<dots> = mask_after (isInvert ndv_def) ?nd k"
        by (rule combine_mask_after)
      finally show "get m1 (int x') (int y') = mask_after (isInvert ndv_def) ?nd (Suc k - 1)"
        by simp
    qed
    have dec: "length bandlist - Suc k < length bandlist - k" using kl by arith
    from kl have sk: "Suc k \<le> length bandlist" by simp
    from less.hyps [OF dec sk p1] inv1 obtain m' where
      r: "band_loop ds ndv_def (Suc k) (drop (Suc k) bandlist) m1 = Some (Inr m')"
      and sh2: "same_shape m1 m'"
      and g2: "0 < length bandlist \<longrightarrow>
         (\<forall>x' y'. x' < GDALGetRasterXSize ds \<longrightarrow> y' < GDALGetRasterYSize ds \<longrightarrow>
            get m' (int x') (int y') =
              mask_after (isInvert ndv_def) (\<lambda>j. is_ndv ds ndv_def bandlist j x' y')
                (length bandlist - 1))"
      by blast
    have "band_loop ds ndv_def k (drop k bandlist) m = Some (Inr m')"
      unfolding dr using b1 b2 r1 r by simp
    with same_shape_trans [OF sh1 sh2] g2 show ?thesis by blast
  qed
qed

lemma band_loop_fatal:
  assumes wfd: "wf_Dataset ds"
  shows "\<not> valid_bandlist ds rest \<Longrightarrow> wf_BitGrid m \<Longrightarrow>
     w m = GDALGetRasterXSize ds \<Longrightarrow> h m = GDALGetRasterYSize ds \<Longrightarrow>
     band_loop ds ndv_def k rest m = Some (Inl (FatalError ''bandid out of range''))"
proof (induction rest arbitrary: k m)
  case Nil
  then show ?case by (simp add: valid_bandlist_def)
next
  case (Cons b rest)
  show ?case
  proof (cases "b < 1 \<or> b > GDALGetRasterCount ds")
    case True
    then show ?thesis by simp
  next
    case False
    then have b1: "1 \<le> b" and b2: "b \<le> GDALGetRasterCount ds" by simp_all
    with Cons.prems(1) have nv: "\<not> valid_bandlist ds rest"
      by (simp add: valid_bandlist_def)
    from scan_band_total [OF wfd b1 b2 Cons.prems(2-4), of ndv_def k] obtain m1 where
      r1: "scan_y ndv_def k (GDALGetRasterBand ds b) (GDALGetRasterXSize ds)
            (GDALGetRasterYSize ds) 0 m = Some m1"
      and sh1: "same_shape m m1"
      by blast
    from sh1 Cons.prems have p1: "wf_BitGrid m1" "w m1 = GDALGetRasterXSize ds"
      "h m1 = GDALGetRasterYSize ds"
      by (simp_all add: same_shape_def)
    from Cons.IH [OF nv p1, of "Suc k"] False r1 show ?thesis by simp
  qed
qed

lemma wf_zero_new: "wf_BitGrid (zero (new_BitGrid wd ht))"
  by (simp add: wf_BitGrid_def zero_def new_BitGrid_def)

lemma w_zero_new: "w (zero (new_BitGrid wd ht)) = wd"
  by (simp add: zero_def new_BitGrid_def)

lemma h_zero_new: "h (zero (new_BitGrid wd ht)) = ht"
  by (simp add: zero_def new_BitGrid_def)

lemma get_zero_new: "get (zero (new_BitGrid wd ht)) x y = False"
proof (cases "in_range (zero (new_BitGrid wd ht)) x y")
  case True
  from pos_less [OF this] show ?thesis
    by (simp add: get_def zero_def new_BitGrid_def)
next
  case False
  then show ?thesis by (rule get_outside)
qed

subsection \<open>An example raster\<close>

text \<open>
  The 2 by 2 raster of the specification's seed test: band 1 holds [[5,1],[2,5]] in tiles of
  1 by 1, band 2 holds [[1,5],[5,1]] in tiles of 2 by 1, and the value 5 is no-data in both.
\<close>

definition seed_band0 :: "unit Band" where
  "seed_band0 = \<lparr> blocksize_x = 1, blocksize_y = 1, gdt_byte = True,
     byte_at = (\<lambda>x y. [[5, 1], [2, 5]] ! y ! x), dbl_at = (\<lambda>x y. ()) \<rparr>"

definition seed_band1 :: "unit Band" where
  "seed_band1 = \<lparr> blocksize_x = 2, blocksize_y = 1, gdt_byte = True,
     byte_at = (\<lambda>x y. [[1, 5], [5, 1]] ! y ! x), dbl_at = (\<lambda>x y. ()) \<rparr>"

definition seed_ds :: "unit Dataset" where
  "seed_ds = \<lparr> xsize = 2, ysize = 2, raster_bands = [seed_band0, seed_band1] \<rparr>"

definition seed_ndv :: "bool \<Rightarrow> unit NdvDef" where
  "seed_ndv b = \<lparr> invert = b, ndv_8bit = (\<lambda>k v. v = 5), ndv_dbl = (\<lambda>k v. False) \<rparr>"

lemma wf_seed_ds: "wf_Dataset seed_ds"
  by (simp add: wf_Dataset_def seed_ds_def seed_band0_def seed_band1_def)

lemma count_seed_ds: "GDALGetRasterCount seed_ds = 2"
  by (simp add: GDALGetRasterCount_def seed_ds_def)

section \<open>The claims about get_bitgrid_for_dataset\<close>

text \<open>
  Claim C2: on a well-formed raster source and a valid, non-empty band list,
  get_bitgrid_for_dataset returns a mask of the size of the raster, and every pixel of
  it follows the combination rule: the band at position 0 seeds the mask (the pixel is
  included if and only if it is not no-data in that band), every later band with
  invert = false can only add the pixel (it becomes included if it is not no-data in that
  band), and every later band with invert = true can only remove it (it is forced false if
  it is no-data in that band).
\<close>

theorem mask_combination_rule:
  assumes "wf_Dataset ds" and "valid_bandlist ds bandlist" and "bandlist \<noteq> []"
    and "x < GDALGetRasterXSize ds" and "y < GDALGetRasterYSize ds"
  shows "\<exists>m. get_bitgrid_for_dataset ds bandlist ndv_def = Some (Inr m) \<and>
     w m = GDALGetRasterXSize ds \<and> h m = GDALGetRasterYSize ds \<and>
     get m (int x) (int y) =
       mask_after (isInvert ndv_def) (\<lambda>k. is_ndv ds ndv_def bandlist k x y)
         (length bandlist - 1)"
proof -
  let ?m0 = "zero (new_BitGrid (GDALGetRasterXSize ds) (GDALGetRasterYSize ds))"
  from band_loop_total [OF assms(1,2), of 0 ?m0 ndv_def] obtain m where
    r: "band_loop ds ndv_def 0 bandlist ?m0 = Some (Inr m)"
    and sh: "same_shape ?m0 m"
    and g: "0 < length bandlist \<longrightarrow>
         (\<forall>x' y'. x' < GDALGetRasterXSize ds \<longrightarrow> y' < GDALGetRasterYSize ds \<longrightarrow>
            get m (int x') (int y') =
              mask_after (isInvert ndv_def) (\<lambda>j. is_ndv ds ndv_def bandlist j x' y')
                (length bandlist - 1))"
    by (auto simp add: wf_zero_new w_zero_new h_zero_new)
  have "get_bitgrid_for_dataset ds bandlist ndv_def = Some (Inr m)"
    using r by (simp add: get_bitgrid_for_dataset_def Let_def)
  moreover from sh have "w m = GDALGetRasterXSize ds" "h m = GDALGetRasterYSize ds"
    by (simp_all add: same_shape_def w_zero_new h_zero_new)
  moreover from g assms(3-5) have "get m (int x) (int y) =
       mask_after (isInvert ndv_def) (\<lambda>k. is_ndv ds ndv_def bandlist k x y)
         (length bandlist - 1)"
    by simp
  ultimately show ?thesis by blast
qed

theorem mask_combination_rule_witness:
  "\<exists>m. get_bitgrid_for_dataset seed_ds [1, 2] (seed_ndv False) = Some (Inr m) \<and> get m 0 0"
proof -
  have v: "valid_bandlist seed_ds [1, 2]"
    by (simp add: valid_bandlist_def count_seed_ds)
  have d: "0 < GDALGetRasterXSize seed_ds" "0 < GDALGetRasterYSize seed_ds"
    by (simp_all add: GDALGetRasterXSize_def GDALGetRasterYSize_def seed_ds_def)
  have n: "is_ndv seed_ds (seed_ndv False) [1, 2] 0 0 0"
    "\<not> is_ndv seed_ds (seed_ndv False) [1, 2] (Suc 0) 0 0"
    by (simp_all add: is_ndv_def band_ndv_def GDALGetRasterBand_def seed_ds_def seed_ndv_def
        seed_band0_def seed_band1_def)
  have i: "\<not> isInvert (seed_ndv False)" by (simp add: isInvert_def seed_ndv_def)
  from mask_combination_rule [OF wf_seed_ds v _ d, of "seed_ndv False"] obtain m where
    "get_bitgrid_for_dataset seed_ds [1, 2] (seed_ndv False) = Some (Inr m)"
    and "get m (int 0) (int 0) =
       mask_after (isInvert (seed_ndv False)) (\<lambda>k. is_ndv seed_ds (seed_ndv False) [1, 2] k 0 0)
         (length [1, 2 :: nat] - 1)"
    by auto
  then show ?thesis using n i by auto
qed

text \<open>
  Claim C5: if any entry of the band list is outside \<open>[1, band_count]\<close>, the build
  ends in the fatal error and returns no mask, also when earlier bands of the list were
  valid and have been processed. The raster source is well formed, so that the scans of
  the earlier bands end.
\<close>

theorem band_out_of_range_fatal:
  assumes "wf_Dataset ds" and "\<not> valid_bandlist ds bandlist"
  shows "get_bitgrid_for_dataset ds bandlist ndv_def =
     Some (Inl (FatalError ''bandid out of range''))"
  using band_loop_fatal [OF assms(1,2) wf_zero_new w_zero_new h_zero_new]
  by (simp add: get_bitgrid_for_dataset_def Let_def)

theorem band_out_of_range_fatal_witness:
  "wf_Dataset seed_ds \<and> \<not> valid_bandlist seed_ds [2, 3, 1] \<and>
   get_bitgrid_for_dataset seed_ds [2, 3, 1] (seed_ndv True) =
     Some (Inl (FatalError ''bandid out of range''))"
proof -
  have v: "\<not> valid_bandlist seed_ds [2, 3, 1]"
    by (simp add: valid_bandlist_def count_seed_ds)
  from band_out_of_range_fatal [OF wf_seed_ds v] wf_seed_ds v show ?thesis by simp
qed

text \<open>
  Claim C9: with an empty band list, get_bitgrid_for_dataset returns a grid of the
  width and height of the raster in which every pixel is false.
\<close>

theorem empty_bandlist_all_false:
  "\<exists>m. get_bitgrid_for_dataset ds [] ndv_def = Some (Inr m) \<and>
     w m = GDALGetRasterXSize ds \<and> h m = GDALGetRasterYSize ds \<and>
     (\<forall>x y. get m x y = False)"
  by (simp add: get_bitgrid_for_dataset_def Let_def w_zero_new h_zero_new get_zero_new)

section \<open>Vertex\<close>

text \<open>
  struct Vertex of polygon.h: two doubles. The coordinate type is a parameter. The
  coordinates of a ring are finite (the specification's data model), and the ring
  operations below only compare, add and multiply them; there a coordinate is a real
  number, and the rounding of double arithmetic is not modelled. centroid() divides, and
  its result can leave the finite doubles; there a coordinate is a \<open>double\<close>.
\<close>

record 'a Vertex =
  x :: 'a
  y :: 'a

text \<open>
  A double as far as centroid() needs it: a finite value, an infinity or NaN. The division
  follows IEEE 754 where the divisor is zero (0/0 is NaN, a non-zero value over 0 is an
  infinity); the rounding of a finite quotient and of the conversion of a 64-bit integer
  are not modelled.
\<close>

datatype double = Finite real | PosInf | NegInf | NaN

definition double_of_int64 :: "64 word \<Rightarrow> real" where
  "double_of_int64 a = real_of_int (sint a)"

definition double_div :: "real \<Rightarrow> real \<Rightarrow> double" where
  "double_div a b =
     (if b = 0 then (if a = 0 then NaN else if 0 < a then PosInf else NegInf)
      else Finite (a / b))"

section \<open>BitGrid::centroid (mask.cc, lines 299 to 314)\<close>

text \<open>
  The three accumulators are \<open>int64_t\<close>; the body of the inner loop adds the
  coordinates of a set pixel and counts it. The function has no error path: it returns
  the Vertex of the two quotients whatever the count is.
\<close>

definition centroid_px ::
  "BitGrid \<Rightarrow> nat \<Rightarrow> nat \<Rightarrow> 64 word \<times> 64 word \<times> 64 word \<Rightarrow> 64 word \<times> 64 word \<times> 64 word"
where
  "centroid_px g py px acc =
     (case acc of (accum_x, accum_y, cnt) \<Rightarrow>
        if get g (int px) (int py)
        then (accum_x + word_of_nat px, accum_y + word_of_nat py, cnt + 1)
        else (accum_x, accum_y, cnt))"

definition centroid_sums :: "BitGrid \<Rightarrow> 64 word \<times> 64 word \<times> 64 word" where
  "centroid_sums g =
     fold (\<lambda>py acc. fold (centroid_px g py) [0..<w g] acc) [0..<h g] (0, 0, 0)"

definition centroid :: "BitGrid \<Rightarrow> double Vertex" where
  "centroid g =
     (case centroid_sums g of (accum_x, accum_y, cnt) \<Rightarrow>
        \<lparr> x = double_div (double_of_int64 accum_x) (double_of_int64 cnt),
          y = double_div (double_of_int64 accum_y) (double_of_int64 cnt) \<rparr>)"

text \<open>A 4 by 5 grid with the one pixel (2,3) set.\<close>

definition one_px :: BitGrid where
  "one_px = set_px (new_BitGrid 4 5) 2 3 True"

lemma centroid_row_unset:
  assumes "\<forall>px py. \<not> get g px py"
  shows "fold (centroid_px g py) cols acc = acc"
  using assms by (induction cols arbitrary: acc) (simp_all add: centroid_px_def split: prod.splits)

lemma centroid_sums_unset:
  assumes "\<forall>px py. \<not> get g px py"
  shows "centroid_sums g = (0, 0, 0)"
proof -
  have "fold (\<lambda>py acc. fold (centroid_px g py) [0..<w g] acc) rows acc = acc" for rows acc
    by (induction rows arbitrary: acc) (simp_all add: centroid_row_unset [OF assms])
  then show ?thesis by (simp add: centroid_sums_def)
qed

lemma get_new_BitGrid: "get (new_BitGrid wd ht) px py = False"
proof (cases "in_range (new_BitGrid wd ht) px py")
  case True
  from pos_less [OF this] show ?thesis
    by (simp add: get_def new_BitGrid_def)
next
  case False
  then show ?thesis by (rule get_outside)
qed

lemma centroid_one_px: "centroid one_px = \<lparr> x = Finite 2, y = Finite 3 \<rparr>"
  by (simp add: centroid_def centroid_sums_def centroid_px_def one_px_def set_px_def
      new_BitGrid_def in_range_def pos_def get_def double_div_def double_of_int64_def upt_rec)

text \<open>
  Claim C3, as the specification states it, fails: on the 2 by 2 grid with no pixel set,
  centroid() raises no error and returns the Vertex whose two coordinates are NaN.
\<close>

theorem centroid_unset_counterexample:
  "x (centroid (new_BitGrid 2 2)) = NaN \<and> y (centroid (new_BitGrid 2 2)) = NaN"
  by (simp add: centroid_def centroid_sums_unset get_new_BitGrid double_div_def double_of_int64_def)

text \<open>
  Claim C3, amended: for every BitGrid in which no pixel is set, centroid() raises no
  error; the count and both sums are 0, and it returns the Vertex whose two coordinates
  are the quotient 0/0, that is NaN.
\<close>

theorem centroid_unset_nan:
  assumes "\<forall>px py. \<not> get g px py"
  shows "centroid g = \<lparr> x = NaN, y = NaN \<rparr>"
  by (simp add: centroid_def centroid_sums_unset [OF assms] double_div_def double_of_int64_def)

theorem centroid_unset_nan_witness:
  "(\<forall>px py. \<not> get (new_BitGrid 3 2) px py) \<and> centroid (new_BitGrid 3 2) = \<lparr> x = NaN, y = NaN \<rparr>"
proof -
  have a: "\<forall>px py. \<not> get (new_BitGrid 3 2) px py" by (simp add: get_new_BitGrid)
  from centroid_unset_nan [OF a] a show ?thesis by simp
qed

section \<open>Bounding boxes and rings (polygon.h)\<close>

datatype RingRelation =
  RINGREL_CONTAINS | RINGREL_CONTAINED_BY | RINGREL_CROSSES | RINGREL_DISJOINT

text \<open>class Bbox, its constructor \<open>Bbox()\<close> and \<open>expand(const Vertex &v)\<close>, lines 58 to 83.\<close>

record Bbox =
  min_x :: real
  max_x :: real
  min_y :: real
  max_y :: real
  empty :: bool

definition new_Bbox :: Bbox where
  "new_Bbox = \<lparr> min_x = 0, max_x = 0, min_y = 0, max_y = 0, empty = True \<rparr>"

definition expand :: "Bbox \<Rightarrow> real Vertex \<Rightarrow> Bbox" where
  "expand bb v =
     (if empty bb then
        bb \<lparr> empty := False, min_x := x v, max_x := x v, min_y := y v, max_y := y v \<rparr>
      else
        (let b1 = (if x v < min_x bb then bb \<lparr> min_x := x v \<rparr> else bb);
             b2 = (if y v < min_y b1 then b1 \<lparr> min_y := y v \<rparr> else b1);
             b3 = (if x v > max_x b2 then b2 \<lparr> max_x := x v \<rparr> else b2);
             b4 = (if y v > max_y b3 then b3 \<lparr> max_y := y v \<rparr> else b3)
         in b4))"

text \<open>\<open>is_disjoint\<close>, lines 87 to 94.\<close>

definition is_disjoint :: "Bbox \<Rightarrow> Bbox \<Rightarrow> bool" where
  "is_disjoint bb1 bb2 =
     (empty bb1 \<or> empty bb2 \<or>
      min_x bb1 > max_x bb2 \<or>
      min_y bb1 > max_y bb2 \<or>
      min_x bb2 > max_x bb1 \<or>
      min_y bb2 > max_y bb1)"

text \<open>class Ring, its constructor \<open>Ring()\<close> and \<open>reverse()\<close>, lines 96 to 118.\<close>

record Ring =
  pts :: "real Vertex list"
  is_hole :: bool
  parent_id :: int




section \<open>The ring operations that polygon.h only declares\<close>

text \<open>
  Modelled from the spec: \<open>Ring::getBbox\<close> is declared in polygon.h and defined in
  polygon.cc, which is not among the sources. The spec: \<open>Ring.getBbox()\<close> folds
  \<open>expand(vertex)\<close> over all points.
\<close>

definition getBbox :: "Ring \<Rightarrow> Bbox" where
  "getBbox r = fold (\<lambda>v bb. expand bb v) (pts r) new_Bbox"

text \<open>
  Modelled from the spec: \<open>ring_ring_relation\<close> is declared in polygon.h and defined in
  polygon.cc, which is not among the sources. The spec gives three steps: if the rings'
  bounding boxes are disjoint the result is DISJOINT, with no further geometry work;
  otherwise, if an edge of r1 crosses an edge of r2, the result is CROSSES; otherwise a
  vertex of one ring is tested against the other ring to decide between CONTAINS,
  CONTAINED_BY and DISJOINT. The edge test and the point-in-ring test are defined in
  polygon.cc too; they are parameters here.
\<close>

definition ring_ring_relation ::
  "(Ring \<Rightarrow> Ring \<Rightarrow> bool) \<Rightarrow> (Ring \<Rightarrow> real Vertex \<Rightarrow> bool) \<Rightarrow> Ring \<Rightarrow> Ring \<Rightarrow> RingRelation"
where
  "ring_ring_relation edges_cross contains r1 r2 =
     (if is_disjoint (getBbox r1) (getBbox r2) then RINGREL_DISJOINT
      else if edges_cross r1 r2 then RINGREL_CROSSES
      else if contains r2 (hd (pts r1)) then RINGREL_CONTAINED_BY
      else if contains r1 (hd (pts r2)) then RINGREL_CONTAINS
      else RINGREL_DISJOINT)"

text \<open>
  Disjointness of two boxes in the words of the specification: either box is empty, or
  their extents fail to overlap on some axis.
\<close>

definition extents_overlap :: "real \<Rightarrow> real \<Rightarrow> real \<Rightarrow> real \<Rightarrow> bool" where
  "extents_overlap lo1 hi1 lo2 hi2 = (lo1 \<le> hi2 \<and> lo2 \<le> hi1)"

definition boxes_disjoint :: "Bbox \<Rightarrow> Bbox \<Rightarrow> bool" where
  "boxes_disjoint bb1 bb2 =
     (empty bb1 \<or> empty bb2 \<or>
      \<not> extents_overlap (min_x bb1) (max_x bb1) (min_x bb2) (max_x bb2) \<or>
      \<not> extents_overlap (min_y bb1) (max_y bb1) (min_y bb2) (max_y bb2))"

text \<open>
  Modelled from the spec: \<open>Ring::orientedArea\<close>, \<open>area\<close> and \<open>isCCW\<close> are declared in
  polygon.h and defined in polygon.cc, which is not among the sources. The spec: the
  oriented area is the shoelace sum of the cross products of consecutive points, over the
  implicitly closed ring (the last point connects to the first), divided by two;
  \<open>area()\<close> is its absolute value, \<open>isCCW()\<close> says whether it is positive; the area of
  a ring with fewer than 3 points is a degenerate-input error.
\<close>

datatype geom_error = DegenerateInput

definition cross :: "real Vertex \<Rightarrow> real Vertex \<Rightarrow> real" where
  "cross p q = x p * y q - x q * y p"

definition shoelace :: "real Vertex list \<Rightarrow> real" where
  "shoelace ps = (\<Sum>(p, q)\<leftarrow>zip ps (rotate1 ps). cross p q)"

definition orientedArea :: "Ring \<Rightarrow> geom_error + real" where
  "orientedArea r =
     (if length (pts r) < 3 then Inl DegenerateInput else Inr (shoelace (pts r) / 2))"


definition isCCW :: "Ring \<Rightarrow> geom_error + bool" where
  "isCCW r = map_sum id (\<lambda>a. 0 < a) (orientedArea r)"





subsection \<open>Example rings\<close>

definition tri_a :: Ring where
  "tri_a = \<lparr> pts = [\<lparr> x = 0, y = 0 \<rparr>, \<lparr> x = 1, y = 0 \<rparr>, \<lparr> x = 0, y = 1 \<rparr>],
     is_hole = False, parent_id = - 1 \<rparr>"

definition tri_b :: Ring where
  "tri_b = \<lparr> pts = [\<lparr> x = 5, y = 5 \<rparr>, \<lparr> x = 6, y = 5 \<rparr>, \<lparr> x = 5, y = 6 \<rparr>],
     is_hole = False, parent_id = - 1 \<rparr>"

definition unit_square :: Ring where
  "unit_square = \<lparr> pts = [\<lparr> x = 0, y = 0 \<rparr>, \<lparr> x = 1, y = 0 \<rparr>, \<lparr> x = 1, y = 1 \<rparr>,
       \<lparr> x = 0, y = 1 \<rparr>], is_hole = False, parent_id = - 1 \<rparr>"

text \<open>A test that is true of every pair of arguments.\<close>

definition always :: "'a \<Rightarrow> 'b \<Rightarrow> bool" where
  "always a b = True"



subsection \<open>Bounding boxes\<close>

lemma is_disjoint_boxes_disjoint: "is_disjoint bb1 bb2 = boxes_disjoint bb1 bb2"
  by (auto simp add: is_disjoint_def boxes_disjoint_def extents_overlap_def)

lemma getBbox_tri_a: "getBbox tri_a = \<lparr> min_x = 0, max_x = 1, min_y = 0, max_y = 1, empty = False \<rparr>"
  by (simp add: getBbox_def tri_a_def expand_def new_Bbox_def)

lemma getBbox_tri_b: "getBbox tri_b = \<lparr> min_x = 5, max_x = 6, min_y = 5, max_y = 6, empty = False \<rparr>"
  by (simp add: getBbox_def tri_b_def expand_def new_Bbox_def)

text \<open>
  Claim C6: for every pair of rings whose bounding boxes are disjoint (either box is empty,
  or their extents fail to overlap on some axis), \<open>ring_ring_relation\<close> returns DISJOINT,
  whatever the edge test and the point-in-ring test would say.
\<close>

theorem disjoint_bboxes_classify_disjoint:
  assumes "boxes_disjoint (getBbox r1) (getBbox r2)"
  shows "ring_ring_relation edges_cross contains r1 r2 = RINGREL_DISJOINT"
  using assms by (simp add: ring_ring_relation_def is_disjoint_boxes_disjoint)

theorem disjoint_bboxes_classify_disjoint_witness:
  "boxes_disjoint (getBbox tri_a) (getBbox tri_b) \<and>
   ring_ring_relation always always tri_a tri_b = RINGREL_DISJOINT"
proof -
  have a: "boxes_disjoint (getBbox tri_a) (getBbox tri_b)"
    by (simp add: getBbox_tri_a getBbox_tri_b boxes_disjoint_def extents_overlap_def)
  from disjoint_bboxes_classify_disjoint [OF a] a show ?thesis by simp
qed

subsection \<open>Oriented area\<close>







lemma orientedArea_unit_square: "orientedArea unit_square = Inr 1"
  by (simp add: orientedArea_def unit_square_def shoelace_def cross_def)


subsection \<open>deleteRing\<close>







end
